theory Spec2Isabelle
  imports Complex_Main "HOL-Library.Multiset" "HOL-Library.Sublist"
begin

section \<open>Tag paths: the string operations the exporter uses\<close>

text \<open>
  A tag is a Python \<open>str\<close>; it is modelled as a \<open>string\<close>. The hierarchy code uses
  four operations with the fixed separator \<open>'::'\<close>: \<open>'::' in s\<close>, \<open>s.count('::')\<close>,
  \<open>s.split('::')\<close> and \<open>'::'.join(parts)\<close>. Python scans for the separator from the
  left and never lets two matches overlap; the functions below do the same.
\<close>

fun has_sep :: "string \<Rightarrow> bool" where
  "has_sep (c # d # cs) = ((c = CHR '':'' \<and> d = CHR '':'') \<or> has_sep (d # cs))"
| "has_sep _ = False"

fun count_sep :: "string \<Rightarrow> nat" where
  "count_sep (c # d # cs) =
     (if c = CHR '':'' \<and> d = CHR '':'' then Suc (count_sep cs) else count_sep (d # cs))"
| "count_sep _ = 0"

fun split_sep :: "string \<Rightarrow> string list" where
  "split_sep (c # d # cs) =
     (if c = CHR '':'' \<and> d = CHR '':'' then [] # split_sep cs
      else (case split_sep (d # cs) of
              p # ps \<Rightarrow> (c # p) # ps
            | [] \<Rightarrow> [[c]]))"
| "split_sep [c] = [[c]]"
| "split_sep [] = [[]]"

fun join_sep :: "string list \<Rightarrow> string" where
  "join_sep [] = []"
| "join_sep [p] = p"
| "join_sep (p # q # ps) = p @ '':'' @ '':'' @ join_sep (q # ps)"

section \<open>HierarchicalTagCounter\<close>

text \<open>
  A card is the dictionary built by \<open>_load_all_data_optimized\<close>. The key \<open>'id'\<close> is read
  with \<open>card.get('id')\<close>, so it may be absent or \<open>None\<close>: both are \<open>None\<close> here. The same
  holds for \<open>'nid'\<close>. All other keys are always present in a loaded card, so
  \<open>c.get(k, 0)\<close> reads the field.
\<close>

record card =
  cid :: "int option"
  nid :: "int option"
  deck :: string
  queue :: int
  due :: int
  ivl :: int
  factor :: int
  reps :: int
  lapses :: int
  suspended :: bool
  tags :: "string list"

text \<open>
  The counter object. Python dictionaries are maps; Python sets are HOL sets. The two
  \<open>defaultdict(set)\<close> fields create an empty set on a read of an absent key with
  \<open>d[k]\<close>, which \<open>dict_set\<close> models; \<open>d.get(k, set())\<close> does not store anything.
\<close>

record counter =
  tag_hierarchy :: "string \<rightharpoonup> string set"
  card_to_tags :: "int \<rightharpoonup> string set"
  tag_to_cards :: "string \<rightharpoonup> int set"
  unique_card_ids :: "int set"
  hierarchy_built :: bool

definition new_counter :: counter where
  "new_counter = \<lparr>tag_hierarchy = Map.empty, card_to_tags = Map.empty,
     tag_to_cards = Map.empty, unique_card_ids = {}, hierarchy_built = False\<rparr>"

definition dict_set :: "('k \<rightharpoonup> 'v set) \<Rightarrow> 'k \<Rightarrow> 'v set" where
  "dict_set d k = (case d k of None \<Rightarrow> {} | Some s \<Rightarrow> s)"

definition dict_add :: "('k \<rightharpoonup> 'v set) \<Rightarrow> 'k \<Rightarrow> 'v \<Rightarrow> ('k \<rightharpoonup> 'v set)" where
  "dict_add d k v = d(k \<mapsto> insert v (dict_set d k))"

text \<open>\<open>if card_id:\<close> on an optional integer: absent, \<open>None\<close> and \<open>0\<close> are falsy.\<close>

definition truthy :: "int option \<Rightarrow> bool" where
  "truthy v = (case v of None \<Rightarrow> False | Some i \<Rightarrow> i \<noteq> 0)"

text \<open>
  \<open>_build_tag_hierarchy_fast\<close>: for \<open>i\<close> in \<open>range(len(tag_parts) - 1)\<close> the edge from
  \<open>'::'.join(tag_parts[:i+1])\<close> to \<open>'::'.join(tag_parts[:i+2])\<close> is added.
\<close>

definition add_edge :: "string list \<Rightarrow> counter \<Rightarrow> nat \<Rightarrow> counter" where
  "add_edge tag_parts st i =
     st\<lparr>tag_hierarchy := dict_add (tag_hierarchy st)
           (join_sep (take (i + 1) tag_parts)) (join_sep (take (i + 2) tag_parts))\<rparr>"

definition build_tag_hierarchy_fast :: "counter \<Rightarrow> string \<Rightarrow> counter" where
  "build_tag_hierarchy_fast st tag_name =
     (if \<not> has_sep tag_name then st
      else let tag_parts = split_sep tag_name
           in foldl (add_edge tag_parts) st [0 ..< length tag_parts - 1])"

text \<open>
  The inner loop of \<open>build_hierarchy_from_cards\<close> over the cards of one tag; the state is
  the local set \<open>card_ids\<close> and the counter.
\<close>

definition add_card :: "string \<Rightarrow> int set \<times> counter \<Rightarrow> card \<Rightarrow> int set \<times> counter" where
  "add_card tag acc c =
     (case acc of (card_ids, st) \<Rightarrow>
        (case cid c of
           Some card_id \<Rightarrow>
             if card_id \<noteq> 0
             then (insert card_id card_ids,
                   st\<lparr>unique_card_ids := insert card_id (unique_card_ids st),
                      card_to_tags := dict_add (card_to_tags st) card_id tag\<rparr>)
             else (card_ids, st)
         | None \<Rightarrow> (card_ids, st)))"

definition add_tag :: "counter \<Rightarrow> string \<times> card list \<Rightarrow> counter" where
  "add_tag st item =
     (case item of (tag, cards) \<Rightarrow>
        (case foldl (add_card tag) ({}, st) cards of
           (card_ids, st1) \<Rightarrow>
             build_tag_hierarchy_fast
               (st1\<lparr>tag_to_cards := (tag_to_cards st1)(tag \<mapsto> card_ids)\<rparr>) tag))"

text \<open>
  \<open>cards_by_tag\<close> is a dictionary; \<open>.items()\<close> yields its entries in insertion order, so
  the input is the list of entries in that order (its keys are distinct).
\<close>

definition build_hierarchy_from_cards ::
  "counter \<Rightarrow> (string \<times> card list) list \<Rightarrow> counter" where
  "build_hierarchy_from_cards st cards_by_tag =
     (if hierarchy_built st then st
      else (foldl add_tag st cards_by_tag)\<lparr>hierarchy_built := True\<rparr>)"

text \<open>
  \<open>_get_parent_tags_fast\<close>: \<open>['::'.join(parts[:i]) for i in range(1, len(parts))]\<close>.
\<close>

definition get_parent_tags_fast :: "string \<Rightarrow> string list" where
  "get_parent_tags_fast tag_name =
     (if \<not> has_sep tag_name then []
      else let parts = split_sep tag_name
           in map (\<lambda>i. join_sep (take i parts)) [1 ..< length parts])"

text \<open>The dictionary stored in \<open>hierarchical_data[tag]\<close>.\<close>

record hier_info =
  direct_cards :: "int set"
  all_unique_cards :: "int set"
  direct_count :: int
  hierarchical_count :: int
  children_count :: int
  children_tags :: "string set"
  parent_tags :: "string list"

text \<open>
  One iteration of the main loop of \<open>calculate_hierarchical_counts\<close>. The loop over
  \<open>children\<close> only accumulates a union, so the order in which Python iterates the set
  does not matter and the loop is the union over the set. \<open>child_cards\<close> is the body's
  choice between the child's computed set and the fallback to its direct set.
  \<open>children_tags\<close> is \<open>list(children)\<close>, a list in the set's unspecified iteration order:
  it is kept as the set.
\<close>

definition child_cards :: "counter \<Rightarrow> (string \<rightharpoonup> hier_info) \<Rightarrow> string \<Rightarrow> int set" where
  "child_cards st hierarchical_data child =
     (case hierarchical_data child of
        Some info \<Rightarrow> all_unique_cards info
      | None \<Rightarrow> dict_set (tag_to_cards st) child)"

definition process_tag ::
  "counter \<Rightarrow> (string \<rightharpoonup> hier_info) \<Rightarrow> string \<Rightarrow> (string \<rightharpoonup> hier_info)" where
  "process_tag st hierarchical_data tag =
     (let direct = dict_set (tag_to_cards st) tag;
          children = dict_set (tag_hierarchy st) tag;
          all_cards = direct \<union> (\<Union>child \<in> children. child_cards st hierarchical_data child)
      in hierarchical_data(tag \<mapsto>
           \<lparr>direct_cards = direct,
            all_unique_cards = all_cards,
            direct_count = int (card direct),
            hierarchical_count = int (card all_cards),
            children_count = int (card all_cards) - int (card direct),
            children_tags = children,
            parent_tags = get_parent_tags_fast tag\<rparr>))"

text \<open>
  \<open>all_tags\<close> is a Python set and \<open>sorted\<close> walks it in an order the language does not
  fix. That order is the parameter \<open>enum\<close>: any duplicate-free list of the elements of
  \<open>all_tags\<close>. \<open>sorted\<close> is stable, as \<open>sort_key\<close> is; the key is \<open>-x.count('::')\<close>.
\<close>

definition all_tags :: "counter \<Rightarrow> string set" where
  "all_tags st = dom (tag_to_cards st) \<union> dom (tag_hierarchy st)"

definition enumerates :: "'a list \<Rightarrow> 'a set \<Rightarrow> bool" where
  "enumerates enum A = (distinct enum \<and> set enum = A)"

definition sorted_tags :: "string list \<Rightarrow> string list" where
  "sorted_tags enum = sort_key (\<lambda>x. - int (count_sep x)) enum"

definition calculate_hierarchical_counts ::
  "counter \<Rightarrow> string list \<Rightarrow> (string \<rightharpoonup> hier_info)" where
  "calculate_hierarchical_counts st enum =
     foldl (process_tag st) Map.empty (sorted_tags enum)"

section \<open>The export service: yield levels\<close>

text \<open>
  \<open>str.lower()\<close> on the ASCII letters, \<open>sub in s\<close>, and
  \<open>re.match(r'^([1-5])[-_]', s)\<close>, which looks at the first two characters only.
\<close>

definition lower_char :: "char \<Rightarrow> char" where
  "lower_char c =
     (case map_of (zip ''ABCDEFGHIJKLMNOPQRSTUVWXYZ'' ''abcdefghijklmnopqrstuvwxyz'') c of
        Some l \<Rightarrow> l
      | None \<Rightarrow> c)"

definition lower :: "string \<Rightarrow> string" where
  "lower s = map lower_char s"

fun contains :: "string \<Rightarrow> string \<Rightarrow> bool" where
  "contains sub [] = (sub = [])"
| "contains sub (c # cs) = (prefix sub (c # cs) \<or> contains sub cs)"

definition match_level :: "string \<Rightarrow> int option" where
  "match_level s =
     (case s of
        d # x # _ \<Rightarrow>
          if d \<in> set ''12345'' \<and> (x = CHR ''-'' \<or> x = CHR ''_'')
          then Some (int (of_char d) - 48)
          else None
      | _ \<Rightarrow> None)"

definition is_high_yield_tag :: "string \<Rightarrow> bool" where
  "is_high_yield_tag tag =
     (let tag_lower = lower tag
      in (contains ''high'' tag_lower \<and> contains ''yield'' tag_lower)
         \<or> contains ''highyield'' tag_lower
         \<or> contains ''lowyield'' tag_lower
         \<or> contains ''loweryield'' tag_lower)"

text \<open>The loop \<open>for part in parts\<close> of \<open>_get_yield_level\<close>, returning at the first match.\<close>

fun first_level :: "string list \<Rightarrow> int" where
  "first_level [] = 0"
| "first_level (part # parts) =
     (case match_level part of Some l \<Rightarrow> l | None \<Rightarrow> first_level parts)"

definition get_yield_level :: "string \<Rightarrow> int" where
  "get_yield_level tag =
     (if \<not> is_high_yield_tag tag then 0
      else (case match_level tag of
              Some l \<Rightarrow> l
            | None \<Rightarrow> first_level (split_sep tag)))"

text \<open>
  \<open>_get_cards_by_yield_level\<close>: a card is appended once, at its first tag of the level.
\<close>

definition get_cards_by_yield_level :: "card list \<Rightarrow> int \<Rightarrow> card list" where
  "get_cards_by_yield_level cards yield_level =
     filter (\<lambda>c. list_ex (\<lambda>tag. get_yield_level tag = yield_level) (tags c)) cards"

text \<open>The scan of a card's tags in the parent branch: the first level above 0, else 0.\<close>

fun card_yield_level :: "string list \<Rightarrow> int" where
  "card_yield_level [] = 0"
| "card_yield_level (t # ts) =
     (if get_yield_level t > 0 then get_yield_level t else card_yield_level ts)"

section \<open>The export service: one record per tag\<close>

text \<open>
  The service object holds the record store: \<open>cards_by_id\<close> and \<open>revlog_by_card\<close>. Of a
  review-log entry the export reads \<open>'ease'\<close> and \<open>'time'\<close> only.
\<close>

record revlog =
  log_id :: int
  ease :: int
  time :: int

record service =
  cards_by_id :: "int \<rightharpoonup> card"
  revlog_by_card :: "int \<rightharpoonup> revlog list"

text \<open>
  Python's \<open>a / b\<close> on integers raises \<open>ZeroDivisionError\<close> when \<open>b\<close> is 0 and otherwise
  yields the float nearest to the exact quotient; the exact quotient stands for it.
\<close>

datatype error = ZeroDivisionError

definition truediv :: "int \<Rightarrow> int \<Rightarrow> error + rat" where
  "truediv a b = (if b = 0 then Inl ZeroDivisionError else Inr (of_int a / of_int b))"

text \<open>
  \<open>sum(1 for c in cards if p(c))\<close> over a list and over a set, \<open>sum(f(c) for c in cards)\<close>,
  and the lookups \<open>self.cards_by_id.get(card_id)\<close> of the parent branches, where an
  identifier without a card is skipped.
\<close>

definition count_if :: "('a \<Rightarrow> bool) \<Rightarrow> 'a list \<Rightarrow> int" where
  "count_if p xs = int (length (filter p xs))"

definition count_in :: "('a \<Rightarrow> bool) \<Rightarrow> 'a set \<Rightarrow> int" where
  "count_in p A = (\<Sum>x \<in> A. if p x then 1 else 0)"

definition card_has :: "service \<Rightarrow> (card \<Rightarrow> bool) \<Rightarrow> int \<Rightarrow> bool" where
  "card_has svc p card_id =
     (case cards_by_id svc card_id of Some c \<Rightarrow> p c | None \<Rightarrow> False)"

definition card_val :: "service \<Rightarrow> (card \<Rightarrow> int) \<Rightarrow> int \<Rightarrow> int" where
  "card_val svc f card_id =
     (case cards_by_id svc card_id of Some c \<Rightarrow> f c | None \<Rightarrow> 0)"

definition nid_set :: "card \<Rightarrow> int set" where
  "nid_set c = (case nid c of Some n \<Rightarrow> if n \<noteq> 0 then {n} else {} | None \<Rightarrow> {})"

definition revlogs_of :: "service \<Rightarrow> int option \<Rightarrow> revlog list" where
  "revlogs_of svc card_id =
     (case card_id of
        None \<Rightarrow> []
      | Some i \<Rightarrow> (case revlog_by_card svc i of Some logs \<Rightarrow> logs | None \<Rightarrow> []))"

text \<open>
  \<open>hierarchical_info = hierarchical_data.get(tag, {})\<close>; the test
  \<open>hierarchical_info and hierarchical_info.get('hierarchical_count', 0) > 0\<close> and the read
  \<open>hierarchical_info.get('all_unique_cards', set())\<close>.
\<close>

definition has_hierarchy :: "hier_info option \<Rightarrow> bool" where
  "has_hierarchy hinfo =
     (case hinfo of Some info \<Rightarrow> hierarchical_count info > 0 | None \<Rightarrow> False)"

definition hierarchy_cards :: "hier_info option \<Rightarrow> int set" where
  "hierarchy_cards hinfo = (case hinfo of Some info \<Rightarrow> all_unique_cards info | None \<Rightarrow> {})"

record yield_stat =
  y_total :: int
  y_new :: int
  y_review :: int

text \<open>
  \<open>yield_stats\<close>, a dictionary with the keys 1 to 5, as a function of the level. The three
  branches are: the tag is itself a yield tag; a parent tag without direct cards; a leaf.
\<close>

definition yield_stats_of ::
  "service \<Rightarrow> string \<Rightarrow> card list \<Rightarrow> hier_info option \<Rightarrow> int \<Rightarrow> yield_stat" where
  "yield_stats_of svc tag cards hinfo level =
     (let total_cards = int (length cards);
          tag_yield_level = get_yield_level tag
      in if tag_yield_level > 0 then
           (if level = tag_yield_level
            then \<lparr>y_total = total_cards,
                  y_new = count_if (\<lambda>c. reps c = 0) cards,
                  y_review = count_if (\<lambda>c. queue c = 2) cards\<rparr>
            else \<lparr>y_total = 0, y_new = 0, y_review = 0\<rparr>)
         else if has_hierarchy hinfo \<and> total_cards = 0 then
           \<lparr>y_total = count_in (card_has svc (\<lambda>c. card_yield_level (tags c) = level))
                         (hierarchy_cards hinfo),
            y_new = count_in (card_has svc (\<lambda>c. card_yield_level (tags c) = level \<and> reps c = 0))
                         (hierarchy_cards hinfo),
            y_review = count_in (card_has svc (\<lambda>c. card_yield_level (tags c) = level \<and> queue c = 2))
                         (hierarchy_cards hinfo)\<rparr>
         else
           (let level_cards = get_cards_by_yield_level cards level
            in \<lparr>y_total = int (length level_cards),
                y_new = count_if (\<lambda>c. reps c = 0) level_cards,
                y_review = count_if (\<lambda>c. queue c = 2) level_cards\<rparr>))"

text \<open>The legacy totals \<open>high_yield_total\<close>, \<open>high_yield_new\<close>, \<open>high_yield_review\<close>.\<close>

definition high_yield_of ::
  "service \<Rightarrow> string \<Rightarrow> card list \<Rightarrow> hier_info option \<Rightarrow> yield_stat" where
  "high_yield_of svc tag cards hinfo =
     (let tag_yield_level = get_yield_level tag;
          yield_stats = yield_stats_of svc tag cards hinfo
      in if tag_yield_level > 0 then
           \<lparr>y_total = int (length cards),
            y_new = y_new (yield_stats tag_yield_level),
            y_review = y_review (yield_stats tag_yield_level)\<rparr>
         else
           \<lparr>y_total = sum_list (map (\<lambda>level. y_total (yield_stats level)) [1, 2, 3, 4, 5]),
            y_new = sum_list (map (\<lambda>level. y_new (yield_stats level)) [1, 2, 3, 4, 5]),
            y_review = sum_list (map (\<lambda>level. y_review (yield_stats level)) [1, 2, 3, 4, 5])\<rparr>)"

record state_counts =
  s_due :: int
  s_new :: int
  s_learning :: int
  s_review :: int
  s_mature :: int
  s_suspended :: int

definition state_counts_of :: "service \<Rightarrow> card list \<Rightarrow> hier_info option \<Rightarrow> state_counts" where
  "state_counts_of svc cards hinfo =
     (if length cards = 0 then
        (if has_hierarchy hinfo then
           \<lparr>s_due = count_in (card_has svc (\<lambda>c. due c \<ge> 0 \<and> \<not> suspended c)) (hierarchy_cards hinfo),
            s_new = count_in (card_has svc (\<lambda>c. reps c = 0)) (hierarchy_cards hinfo),
            s_learning = count_in (card_has svc (\<lambda>c. queue c = 1)) (hierarchy_cards hinfo),
            s_review = count_in (card_has svc (\<lambda>c. queue c = 2)) (hierarchy_cards hinfo),
            s_mature = count_in (card_has svc (\<lambda>c. ivl c > 21)) (hierarchy_cards hinfo),
            s_suspended = count_in (card_has svc (\<lambda>c. suspended c)) (hierarchy_cards hinfo)\<rparr>
         else \<lparr>s_due = 0, s_new = 0, s_learning = 0, s_review = 0, s_mature = 0, s_suspended = 0\<rparr>)
      else
        \<lparr>s_due = count_if (\<lambda>c. due c \<ge> 0 \<and> \<not> suspended c) cards,
         s_new = count_if (\<lambda>c. reps c = 0) cards,
         s_learning = count_if (\<lambda>c. queue c = 1) cards,
         s_review = count_if (\<lambda>c. queue c = 2) cards,
         s_mature = count_if (\<lambda>c. ivl c > 21) cards,
         s_suspended = count_if (\<lambda>c. suspended c) cards\<rparr>)"

record averages =
  a_total_lapses :: int
  a_avg_ease :: rat
  a_avg_interval :: rat
  a_unique_notes :: int

definition guarded_div :: "int \<Rightarrow> int \<Rightarrow> error + rat" where
  \<comment> \<open>\<open>(a / b) if b else 0\<close>\<close>
  "guarded_div a b = (if b \<noteq> 0 then truediv a b else Inr 0)"

definition averages_of :: "service \<Rightarrow> card list \<Rightarrow> hier_info option \<Rightarrow> error + averages" where
  "averages_of svc cards hinfo =
     (let total_cards = int (length cards)
      in if total_cards > 0 then
           (let total_factor = sum_list (map factor cards);
                total_interval = sum_list (map ivl cards);
                total_lapses = sum_list (map lapses cards);
                note_ids = (\<Union>c \<in> set cards. nid_set c)
            in case truediv total_factor total_cards of
                 Inl e \<Rightarrow> Inl e
               | Inr avg_ease \<Rightarrow>
                   (case truediv total_interval total_cards of
                      Inl e \<Rightarrow> Inl e
                    | Inr avg_interval \<Rightarrow>
                        Inr \<lparr>a_total_lapses = total_lapses, a_avg_ease = avg_ease,
                             a_avg_interval = avg_interval,
                             a_unique_notes = int (card note_ids)\<rparr>))
         else if has_hierarchy hinfo then
           (let all_cards_in_hierarchy = hierarchy_cards hinfo;
                count_cards = count_in (card_has svc (\<lambda>c. True)) all_cards_in_hierarchy;
                total_factor = (\<Sum>i \<in> all_cards_in_hierarchy. card_val svc factor i);
                total_interval = (\<Sum>i \<in> all_cards_in_hierarchy. card_val svc ivl i);
                total_lapses = (\<Sum>i \<in> all_cards_in_hierarchy. card_val svc lapses i);
                note_ids = (\<Union>i \<in> all_cards_in_hierarchy.
                              case cards_by_id svc i of Some c \<Rightarrow> nid_set c | None \<Rightarrow> {})
            in case guarded_div total_factor count_cards of
                 Inl e \<Rightarrow> Inl e
               | Inr avg_ease \<Rightarrow>
                   (case guarded_div total_interval count_cards of
                      Inl e \<Rightarrow> Inl e
                    | Inr avg_interval \<Rightarrow>
                        Inr \<lparr>a_total_lapses = total_lapses, a_avg_ease = avg_ease,
                             a_avg_interval = avg_interval,
                             a_unique_notes = int (card note_ids)\<rparr>))
         else Inr \<lparr>a_total_lapses = 0, a_avg_ease = 0, a_avg_interval = 0, a_unique_notes = 0\<rparr>)"

record review_data =
  total_reviews :: int
  total_time_ms :: int
  avg_time_ms :: rat
  again_count :: int
  hard_count :: int
  good_count :: int
  easy_count :: int

text \<open>
  In the parent branch \<open>all_revlogs\<close> is filled in the iteration order of the set; it is
  only measured, summed and counted, so each quantity is the sum over the set.
\<close>

definition review_data_of :: "service \<Rightarrow> card list \<Rightarrow> hier_info option \<Rightarrow> error + review_data" where
  "review_data_of svc cards hinfo =
     (if int (length cards) > 0 then
        (let all_revlogs = concat (map (\<lambda>c. revlogs_of svc (cid c)) cards);
             n = int (length all_revlogs);
             t = sum_list (map time all_revlogs)
         in case guarded_div t n of
              Inl e \<Rightarrow> Inl e
            | Inr avg \<Rightarrow>
                Inr \<lparr>total_reviews = n, total_time_ms = t, avg_time_ms = avg,
                     again_count = count_if (\<lambda>l. ease l = 1) all_revlogs,
                     hard_count = count_if (\<lambda>l. ease l = 2) all_revlogs,
                     good_count = count_if (\<lambda>l. ease l = 3) all_revlogs,
                     easy_count = count_if (\<lambda>l. ease l = 4) all_revlogs\<rparr>)
      else if has_hierarchy hinfo then
        (let card_ids = hierarchy_cards hinfo;
             n = (\<Sum>i \<in> card_ids. int (length (revlogs_of svc (Some i))));
             t = (\<Sum>i \<in> card_ids. sum_list (map time (revlogs_of svc (Some i))))
         in case guarded_div t n of
              Inl e \<Rightarrow> Inl e
            | Inr avg \<Rightarrow>
                Inr \<lparr>total_reviews = n, total_time_ms = t, avg_time_ms = avg,
                     again_count = (\<Sum>i \<in> card_ids. count_if (\<lambda>l. ease l = 1) (revlogs_of svc (Some i))),
                     hard_count = (\<Sum>i \<in> card_ids. count_if (\<lambda>l. ease l = 2) (revlogs_of svc (Some i))),
                     good_count = (\<Sum>i \<in> card_ids. count_if (\<lambda>l. ease l = 3) (revlogs_of svc (Some i))),
                     easy_count = (\<Sum>i \<in> card_ids. count_if (\<lambda>l. ease l = 4) (revlogs_of svc (Some i)))\<rparr>)
      else Inr \<lparr>total_reviews = 0, total_time_ms = 0, avg_time_ms = 0, again_count = 0,
                hard_count = 0, good_count = 0, easy_count = 0\<rparr>)"

text \<open>
  The unstudied count. In the first branch \<open>self.cards_by_id.get(card_id, {}).get("reps", 0)\<close>
  is 0 for an identifier without a card.
\<close>

definition unstudied_of :: "service \<Rightarrow> card list \<Rightarrow> hier_info option \<Rightarrow> int" where
  "unstudied_of svc cards hinfo =
     (if has_hierarchy hinfo
      then count_in (\<lambda>card_id. card_val svc reps card_id = 0) (hierarchy_cards hinfo)
      else count_if (\<lambda>c. reps c = 0) cards)"

record card_detail =
  det_card_id :: "int option"
  det_note_id :: "int option"
  det_deck :: string
  det_queue :: int
  det_due :: int
  det_suspended :: bool

definition card_details_of :: "card list \<Rightarrow> card_detail list" where
  "card_details_of cards =
     (if int (length cards) > 0
      then map (\<lambda>c. \<lparr>det_card_id = cid c, det_note_id = nid c, det_deck = deck c,
                      det_queue = queue c, det_due = due c, det_suspended = suspended c\<rparr>)
             (filter (\<lambda>c. reps c = 0) cards)
      else [])"

text \<open>
  The record appended to \<open>result\<close>. The constant fields \<open>service_name\<close> and \<open>export_type\<close>
  and the wall-clock \<open>timestamp\<close> are left out. \<open>children_tags\<close> and \<open>parent_tags\<close> carry
  the suffix \<open>_out\<close> to keep them apart from the fields of \<open>hier_info\<close>.
\<close>

record tag_data =
  tag_name :: string
  total_cards :: int
  unique_notes :: int
  due_cards :: int
  new_cards :: int
  learning_cards :: int
  review_cards :: int
  mature_cards :: int
  suspended_cards :: int
  unstudied_cards :: int
  high_yield_total_cards :: int
  high_yield_new_cards :: int
  high_yield_review_cards :: int
  yield_1 :: yield_stat
  yield_2 :: yield_stat
  yield_3 :: yield_stat
  yield_4 :: yield_stat
  yield_5 :: yield_stat
  hierarchical_total_cards :: int
  children_cards :: int
  children_tags_out :: "string set"
  parent_tags_out :: "string list"
  avg_ease :: rat
  avg_interval :: rat
  total_lapses :: int
  review :: review_data
  unstudied_card_details :: "card_detail list"

definition tag_record ::
  "service \<Rightarrow> string \<Rightarrow> card list \<Rightarrow> hier_info option \<Rightarrow> error + tag_data" where
  "tag_record svc tag cards hinfo =
     (let total_cards = int (length cards);
          yield_stats = yield_stats_of svc tag cards hinfo;
          high_yield = high_yield_of svc tag cards hinfo;
          counts = state_counts_of svc cards hinfo
      in case averages_of svc cards hinfo of
           Inl e \<Rightarrow> Inl e
         | Inr av \<Rightarrow>
             (case review_data_of svc cards hinfo of
                Inl e \<Rightarrow> Inl e
              | Inr rd \<Rightarrow>
                  Inr \<lparr>tag_name = tag,
                       total_cards = total_cards,
                       unique_notes = a_unique_notes av,
                       due_cards = s_due counts,
                       new_cards = s_new counts,
                       learning_cards = s_learning counts,
                       review_cards = s_review counts,
                       mature_cards = s_mature counts,
                       suspended_cards = s_suspended counts,
                       unstudied_cards = unstudied_of svc cards hinfo,
                       high_yield_total_cards = y_total high_yield,
                       high_yield_new_cards = y_new high_yield,
                       high_yield_review_cards = y_review high_yield,
                       yield_1 = yield_stats 1,
                       yield_2 = yield_stats 2,
                       yield_3 = yield_stats 3,
                       yield_4 = yield_stats 4,
                       yield_5 = yield_stats 5,
                       hierarchical_total_cards =
                         (case hinfo of Some info \<Rightarrow> hierarchical_count info | None \<Rightarrow> total_cards),
                       children_cards =
                         (case hinfo of Some info \<Rightarrow> children_count info | None \<Rightarrow> 0),
                       children_tags_out =
                         (case hinfo of Some info \<Rightarrow> children_tags info | None \<Rightarrow> {}),
                       parent_tags_out =
                         (case hinfo of Some info \<Rightarrow> parent_tags info | None \<Rightarrow> []),
                       avg_ease = a_avg_ease av,
                       avg_interval = a_avg_interval av,
                       total_lapses = a_total_lapses av,
                       review = rd,
                       unstudied_card_details = card_details_of cards\<rparr>))"

text \<open>
  \<open>_create_export_data_fast\<close>. \<open>cards_by_tag.get(tag, [])\<close> reads the dictionary given as
  its list of entries. The loop runs over the set \<open>all_tags\<close> in an order the language
  does not fix: \<open>enum\<close> is that order. An exception in one iteration ends the loop.
\<close>

definition cards_of :: "(string \<times> card list) list \<Rightarrow> string \<Rightarrow> card list" where
  "cards_of cards_by_tag tag = (case map_of cards_by_tag tag of Some cs \<Rightarrow> cs | None \<Rightarrow> [])"

definition export_tags ::
  "(string \<times> card list) list \<Rightarrow> (string \<rightharpoonup> hier_info) \<Rightarrow> string set" where
  "export_tags cards_by_tag hierarchical_data = set (map fst cards_by_tag) \<union> dom hierarchical_data"

fun export_loop ::
  "service \<Rightarrow> (string \<times> card list) list \<Rightarrow> (string \<rightharpoonup> hier_info) \<Rightarrow> string list
     \<Rightarrow> error + tag_data list" where
  "export_loop svc cards_by_tag hierarchical_data [] = Inr []"
| "export_loop svc cards_by_tag hierarchical_data (tag # rest) =
     (case tag_record svc tag (cards_of cards_by_tag tag) (hierarchical_data tag) of
        Inl e \<Rightarrow> Inl e
      | Inr r \<Rightarrow>
          (case export_loop svc cards_by_tag hierarchical_data rest of
             Inl e \<Rightarrow> Inl e
           | Inr rs \<Rightarrow> Inr (r # rs)))"

definition create_export_data_fast ::
  "service \<Rightarrow> (string \<times> card list) list \<Rightarrow> (string \<rightharpoonup> hier_info) \<Rightarrow> string list
     \<Rightarrow> error + tag_data list" where
  "create_export_data_fast svc cards_by_tag hierarchical_data enum =
     export_loop svc cards_by_tag hierarchical_data enum"

text \<open>
  Steps 3 and 4 of \<open>export_data\<close> on a fresh counter: \<open>enum1\<close> is the order in which
  \<open>sorted\<close> walks the counter's \<open>all_tags\<close>, \<open>enum2\<close> the order of the export loop.
\<close>

definition export_records ::
  "service \<Rightarrow> (string \<times> card list) list \<Rightarrow> string list \<Rightarrow> string list
     \<Rightarrow> error + tag_data list" where
  "export_records svc cards_by_tag enum1 enum2 =
     (let st = build_hierarchy_from_cards new_counter cards_by_tag;
          hierarchical_data = calculate_hierarchical_counts st enum1
      in create_export_data_fast svc cards_by_tag hierarchical_data enum2)"

section \<open>Writing the compressed file\<close>

text \<open>
  The file system, as far as the writers touch it: the directories that exist, and the
  regular files, a file being the list of the lines written to the compressed stream at its
  path. \<open>path_join\<close> is \<open>os.path.join\<close> on POSIX paths. The library calls that may fail are
  parameters of the model: \<open>makedirs_ok d\<close> tells whether \<open>os.makedirs(d, exist_ok=True)\<close>
  returns (it raises \<open>OSError\<close> otherwise), \<open>can_open p\<close> tells whether \<open>gzip.open\<close> of the path
  \<open>p\<close> succeeds, and \<open>dumps\<close> is \<open>json.dumps\<close> followed by the write of the line, \<open>None\<close> where
  either raises. What the functions print is not part of the model.
\<close>

datatype io_error = OSError

definition path_join :: "string \<Rightarrow> string \<Rightarrow> string" where
  "path_join a b =
     (if b \<noteq> [] \<and> hd b = CHR ''/'' then b
      else if a = [] \<or> last a = CHR ''/'' then a @ b
      else a @ ''/'' @ b)"

record file_system =
  dirs :: "string set"
  files :: "string \<rightharpoonup> string list"

definition makedirs :: "(string \<Rightarrow> bool) \<Rightarrow> string \<Rightarrow> file_system \<Rightarrow> io_error + file_system" where
  "makedirs makedirs_ok d fs =
     (if makedirs_ok d then Inr (fs\<lparr>dirs := insert d (dirs fs)\<rparr>) else Inl OSError)"

text \<open>
  \<open>_get_exports_dir\<close>. \<open>addon_dir\<close> is the directory one level above \<open>services/\<close>, which the
  source derives from the location of the module. The function joins it with \<open>exports\<close>,
  creates the directory and returns its path; it has no \<open>try\<close>, so an exception of
  \<open>os.makedirs\<close> leaves it.
\<close>

definition get_exports_dir ::
  "(string \<Rightarrow> bool) \<Rightarrow> string \<Rightarrow> file_system \<Rightarrow> (io_error + string) \<times> file_system" where
  "get_exports_dir makedirs_ok addon_dir fs =
     (let exports_dir = path_join addon_dir ''exports'' in
      case makedirs makedirs_ok exports_dir fs of
        Inl e \<Rightarrow> (Inl e, fs)
      | Inr fs' \<Rightarrow> (Inr exports_dir, fs'))"

text \<open>
  The loop over the items inside \<open>with gzip.open(...)\<close>. Its flag is false when the loop was
  left by an exception; the lines written before that are returned with it.
\<close>

fun write_items :: "('a \<Rightarrow> string option) \<Rightarrow> 'a list \<Rightarrow> string list \<Rightarrow> string list \<times> bool" where
  "write_items dumps [] written = (written, True)"
| "write_items dumps (item # rest) written =
     (case dumps item of
        None \<Rightarrow> (written, False)
      | Some line \<Rightarrow> write_items dumps rest (written @ [line @ [CHR 0x0A]]))"

text \<open>
  \<open>_compress_to_gzip_fast\<close>. The call of \<open>_get_exports_dir\<close> and the join of the file name
  stand before the \<open>try\<close> statement: when the directory cannot be created the exception leaves
  the function, which is the result \<open>Inl OSError\<close>. Inside the \<open>try\<close>, a successful
  \<open>gzip.open\<close> creates the file, the \<open>with\<close> statement closes it on every path, so what was
  written stays in the file; after the loop the file exists, so the test of its existence
  only selects what is printed. The \<open>except\<close> branch prints and returns the empty string.
\<close>

definition compress_to_gzip_fast ::
  "(string \<Rightarrow> bool) \<Rightarrow> (string \<Rightarrow> bool) \<Rightarrow> ('a \<Rightarrow> string option) \<Rightarrow> string \<Rightarrow> file_system
     \<Rightarrow> 'a list \<Rightarrow> string \<Rightarrow> (io_error + string) \<times> file_system" where
  "compress_to_gzip_fast makedirs_ok can_open dumps addon_dir fs data filename =
     (case get_exports_dir makedirs_ok addon_dir fs of
        (Inl e, fs1) \<Rightarrow> (Inl e, fs1)
      | (Inr exports_dir, fs1) \<Rightarrow>
          (let file_path = path_join exports_dir filename in
           if \<not> can_open file_path then (Inr '''', fs1)
           else (case write_items dumps data [] of
                   (written, ok) \<Rightarrow>
                     if ok then (Inr file_path, fs1\<lparr>files := (files fs1)(file_path \<mapsto> written)\<rparr>)
                     else (Inr '''', fs1\<lparr>files := (files fs1)(file_path \<mapsto> written)\<rparr>))))"

text \<open>
  \<open>_create_direct_unified_export\<close> of the unified exporter. Its whole body is inside the
  \<open>try\<close> statement, and every exception gives the result dictionary with \<open>success = False\<close>.
  \<open>exports_dir\<close> is \<open>self.exports_dir\<close>, which the constructor created; \<open>all_tags_data\<close> is
  what \<open>_get_hierarchical_export_data\<close> returned; \<open>timestamp\<close> is the formatted current time.
  Of the result dictionary the model keeps \<open>file_path\<close>, \<open>record_count\<close> and \<open>success\<close>.
\<close>

record unified_result =
  file_path :: string
  record_count :: int
  success :: bool

definition create_direct_unified_export ::
  "(string \<Rightarrow> bool) \<Rightarrow> ('a \<Rightarrow> string option) \<Rightarrow> string \<Rightarrow> file_system \<Rightarrow> 'a list \<Rightarrow> string
     \<Rightarrow> unified_result \<times> file_system" where
  "create_direct_unified_export can_open dumps exports_dir fs all_tags_data timestamp =
     (let filename = ''unified_export_'' @ timestamp @ ''.ndjson.gz'';
          path = path_join exports_dir filename in
      if \<not> can_open path
      then (\<lparr>file_path = '''', record_count = 0, success = False\<rparr>, fs)
      else (case write_items dumps all_tags_data [] of
              (written, ok) \<Rightarrow>
                if ok
                then (\<lparr>file_path = path, record_count = int (length all_tags_data), success = True\<rparr>,
                      fs\<lparr>files := (files fs)(path \<mapsto> written)\<rparr>)
                else (\<lparr>file_path = '''', record_count = 0, success = False\<rparr>,
                      fs\<lparr>files := (files fs)(path \<mapsto> written)\<rparr>)))"

section \<open>Notions used to state the properties\<close>

text \<open>
  The parent-to-child edges stored in \<open>tag_hierarchy\<close> as a relation, the edges one tag
  path contributes, the identifiers of a card list that pass \<open>if card_id:\<close>, the rolled-up
  set stored for a tag, and the descendants of a tag: the tags reachable over one or more
  child edges.
\<close>

definition hrel :: "(string \<rightharpoonup> string set) \<Rightarrow> (string \<times> string) set" where
  "hrel h = {(p, c). c \<in> dict_set h p}"

definition edges_of :: "string \<Rightarrow> (string \<times> string) set" where
  "edges_of tag =
     (\<lambda>i. (join_sep (take (i + 1) (split_sep tag)), join_sep (take (i + 2) (split_sep tag))))
       ` {0 ..< length (split_sep tag) - 1}"

definition card_id_set :: "card list \<Rightarrow> int set" where
  "card_id_set cards = {i. \<exists>c \<in> set cards. cid c = Some i \<and> i \<noteq> 0}"

definition nonempty_vals :: "('k \<rightharpoonup> 'v set) \<Rightarrow> bool" where
  "nonempty_vals h = (\<forall>k s. h k = Some s \<longrightarrow> s \<noteq> {})"

definition rolled_up :: "(string \<rightharpoonup> hier_info) \<Rightarrow> string \<Rightarrow> int set" where
  "rolled_up hierarchical_data t =
     (case hierarchical_data t of Some info \<Rightarrow> all_unique_cards info | None \<Rightarrow> {})"

definition descendants :: "counter \<Rightarrow> string \<Rightarrow> string set" where
  "descendants st t = {d. (t, d) \<in> (hrel (tag_hierarchy st))\<^sup>+}"

text \<open>
  The yield marker and the leading level in the words of the specification: the lowercased
  label contains a string when that string is a contiguous part of it; a string has the
  leading level \<open>d\<close> when it starts with the digit \<open>d\<close> from 1 to 5 followed at once by
  \<open>-\<close> or \<open>_\<close>.
\<close>

definition yield_marker :: "string \<Rightarrow> bool" where
  "yield_marker tag =
     ((sublist ''high'' (lower tag) \<and> sublist ''yield'' (lower tag))
      \<or> sublist ''highyield'' (lower tag)
      \<or> sublist ''lowyield'' (lower tag)
      \<or> sublist ''loweryield'' (lower tag))"

definition leading_level :: "string \<Rightarrow> int \<Rightarrow> bool" where
  "leading_level s d =
     (\<exists>x rest. (x = CHR ''-'' \<or> x = CHR ''_'') \<and>
        (s = CHR ''1'' # x # rest \<and> d = 1 \<or>
         s = CHR ''2'' # x # rest \<and> d = 2 \<or>
         s = CHR ''3'' # x # rest \<and> d = 3 \<or>
         s = CHR ''4'' # x # rest \<and> d = 4 \<or>
         s = CHR ''5'' # x # rest \<and> d = 5))"

text \<open>
  The two situations of claim C8. No card is found for the node: it has no direct cards and
  either no rolled-up cards or none of them is in the record store. No review log: the
  cards the review block reads have no entries.
\<close>

definition no_cards_found :: "service \<Rightarrow> card list \<Rightarrow> hier_info option \<Rightarrow> bool" where
  "no_cards_found svc cards hinfo =
     (cards = [] \<and> (\<not> has_hierarchy hinfo \<or> (\<forall>i \<in> hierarchy_cards hinfo. cards_by_id svc i = None)))"

definition no_review_logs :: "service \<Rightarrow> card list \<Rightarrow> hier_info option \<Rightarrow> bool" where
  "no_review_logs svc cards hinfo =
     (if cards \<noteq> [] then \<forall>c \<in> set cards. revlogs_of svc (cid c) = []
      else \<forall>i \<in> hierarchy_cards hinfo. revlogs_of svc (Some i) = [])"

text \<open>
  The input without the card records whose \<open>'id'\<close> is absent, \<open>None\<close> or 0.
\<close>

definition drop_falsy :: "(string \<times> card list) list \<Rightarrow> (string \<times> card list) list" where
  "drop_falsy cards_by_tag = map (\<lambda>(t, cs). (t, filter (\<lambda>c. truthy (cid c)) cs)) cards_by_tag"

text \<open>
  Properties of the dictionary \<open>hierarchical_data\<close> while it is filled: every rolled-up set
  stored so far is finite, lies within a given set, and lies within the cards reachable
  from its tag. The cards reachable from a tag are its direct card identifiers and those of
  its descendants; \<open>node_info\<close> is the entry of a tag written with them.
\<close>

definition finite_rolled :: "(string \<rightharpoonup> hier_info) \<Rightarrow> bool" where
  "finite_rolled h = (\<forall>t info. h t = Some info \<longrightarrow> finite (all_unique_cards info))"

definition rolled_within :: "int set \<Rightarrow> (string \<rightharpoonup> hier_info) \<Rightarrow> bool" where
  "rolled_within U h = (\<forall>t info. h t = Some info \<longrightarrow> all_unique_cards info \<subseteq> U)"

definition reachable_cards :: "counter \<Rightarrow> string \<Rightarrow> int set" where
  "reachable_cards st t =
     dict_set (tag_to_cards st) t \<union> (\<Union>d \<in> descendants st t. dict_set (tag_to_cards st) d)"

definition rolled_reachable :: "counter \<Rightarrow> (string \<rightharpoonup> hier_info) \<Rightarrow> bool" where
  "rolled_reachable st h = (\<forall>t info. h t = Some info \<longrightarrow> all_unique_cards info \<subseteq> reachable_cards st t)"

definition node_info :: "counter \<Rightarrow> string \<Rightarrow> hier_info" where
  "node_info st t =
     \<lparr>direct_cards = dict_set (tag_to_cards st) t,
      all_unique_cards = reachable_cards st t,
      direct_count = int (card (dict_set (tag_to_cards st) t)),
      hierarchical_count = int (card (reachable_cards st t)),
      children_count = int (card (reachable_cards st t)) - int (card (dict_set (tag_to_cards st) t)),
      children_tags = dict_set (tag_hierarchy st) t,
      parent_tags = get_parent_tags_fast t\<rparr>"

text \<open>
  Two inputs are the same mapping when they have the same tags and, for every tag, the same
  cards up to the order of the list.
\<close>

definition same_mapping :: "(string \<times> card list) list \<Rightarrow> (string \<times> card list) list \<Rightarrow> bool" where
  "same_mapping cbt1 cbt2 =
     (distinct (map fst cbt1) \<and> distinct (map fst cbt2) \<and> fst ` set cbt1 = fst ` set cbt2 \<and>
      (\<forall>t. mset (cards_of cbt1 t) = mset (cards_of cbt2 t)))"

text \<open>
  The line that the writers produce for an item; the path of the exports directory below
  \<open>addon_dir\<close>; the file name of the unified export; and a file system with one more
  directory, or with the file at \<open>p\<close> holding the lines \<open>ls\<close>.
\<close>

definition json_line :: "('a \<Rightarrow> string option) \<Rightarrow> 'a \<Rightarrow> string" where
  "json_line dumps item = the (dumps item) @ [CHR 0x0A]"

definition exports_of :: "string \<Rightarrow> string" where
  "exports_of addon_dir = path_join addon_dir ''exports''"

definition unified_name :: "string \<Rightarrow> string" where
  "unified_name timestamp = ''unified_export_'' @ timestamp @ ''.ndjson.gz''"

definition with_dir :: "file_system \<Rightarrow> string \<Rightarrow> file_system" where
  "with_dir fs d = fs\<lparr>dirs := insert d (dirs fs)\<rparr>"

definition with_file :: "file_system \<Rightarrow> string \<Rightarrow> string list \<Rightarrow> file_system" where
  "with_file fs p ls = fs\<lparr>files := (files fs)(p \<mapsto> ls)\<rparr>"

section \<open>Small collections used in the examples\<close>

text \<open>
  A card with an identifier and a repetition count; a collection of three tags below \<open>a\<close>
  with the cards 1, 2 and 3; one order in which the set of its tags may be enumerated; and
  its record store, in which no card has been reviewed.
\<close>

definition mk_card :: "int \<Rightarrow> int \<Rightarrow> card" where
  "mk_card i r = \<lparr>cid = Some i, nid = Some i, deck = ''Default'', queue = 0, due = 0, ivl = 0,
     factor = 2500, reps = r, lapses = 0, suspended = False, tags = []\<rparr>"

definition ex_cards_by_tag :: "(string \<times> card list) list" where
  "ex_cards_by_tag =
     [(''a::b::c'', [mk_card 1 0]), (''a::b'', [mk_card 2 3]), (''a::d'', [mk_card 1 0, mk_card 3 0])]"

definition ex_enum :: "string list" where
  "ex_enum = [''a::d'', ''a'', ''a::b::c'', ''a::b'']"

abbreviation ex_counter :: counter where
  "ex_counter \<equiv> build_hierarchy_from_cards new_counter ex_cards_by_tag"

definition ex_service :: service where
  "ex_service = \<lparr>cards_by_id = [1 \<mapsto> mk_card 1 0, 2 \<mapsto> mk_card 2 3, 3 \<mapsto> mk_card 3 0],
     revlog_by_card = Map.empty\<rparr>"

text \<open>
  A collection whose only card has the identifier 0, and one with such a record beside a
  card with the identifier 7.
\<close>

definition ex_idless :: "(string \<times> card list) list" where
  "ex_idless = [(''a::b'', [mk_card 0 0])]"

definition ex_mixed :: "(string \<times> card list) list" where
  "ex_mixed = [(''t'', [mk_card 0 0, mk_card 7 0])]"

text \<open>
  Two inputs that list the two cards of one tag in opposite orders.
\<close>

definition ex_order1 :: "(string \<times> card list) list" where
  "ex_order1 = [(''t'', [mk_card 1 0, mk_card 2 0])]"

definition ex_order2 :: "(string \<times> card list) list" where
  "ex_order2 = [(''t'', [mk_card 2 0, mk_card 1 0])]"

text \<open>
  A collection with two cards. Card 1 carries the tag \<open>a::b::c\<close> and has never been studied;
  card 2 carries the tag \<open>a::b\<close> and has been studied three times.
\<close>

definition ex_card1 :: card where
  "ex_card1 = (mk_card 1 0)\<lparr>tags := [''a::b::c'']\<rparr>"

definition ex_card2 :: card where
  "ex_card2 = (mk_card 2 3)\<lparr>tags := [''a::b''], queue := 2, ivl := 10\<rparr>"

definition ex_two_cards_by_tag :: "(string \<times> card list) list" where
  "ex_two_cards_by_tag = [(''a::b::c'', [ex_card1]), (''a::b'', [ex_card2])]"

definition ex_two_service :: service where
  "ex_two_service =
     \<lparr>cards_by_id = [1 \<mapsto> ex_card1, 2 \<mapsto> ex_card2],
      revlog_by_card = [2 \<mapsto> [\<lparr>log_id = 1000, ease = 3, time = 5000\<rparr>,
                               \<lparr>log_id = 2000, ease = 3, time = 4000\<rparr>,
                               \<lparr>log_id = 3000, ease = 4, time = 3000\<rparr>]]\<rparr>"

definition ex_two_enum :: "string list" where
  "ex_two_enum = [''a::b::c'', ''a::b'', ''a'']"

text \<open>
  A serializer that accepts the item 0 only, and an empty file system.
\<close>

definition ex_dumps :: "nat \<Rightarrow> string option" where
  "ex_dumps n = (if n = 0 then Some ''{}'' else None)"

definition ex_fs :: file_system where
  "ex_fs = \<lparr>dirs = {}, files = Map.empty\<rparr>"

section \<open>Properties of the tag-path operations\<close>

lemma split_sep_nonempty: "split_sep s \<noteq> []"
  by (induction s rule: split_sep.induct) (auto split: list.splits)

lemma join_sep_Cons: "ps \<noteq> [] \<Longrightarrow> join_sep (p # ps) = p @ '':'' @ '':'' @ join_sep ps"
  by (cases ps) auto

lemma join_sep_Cons_char:
  "join_sep ((c # p) # ps) = c # join_sep (p # ps)"
  by (cases ps) auto

lemma join_split: "join_sep (split_sep s) = s"
proof (induction s rule: split_sep.induct)
  case (1 c d cs)
  show ?case
  proof (cases "c = CHR '':'' \<and> d = CHR '':''")
    case True
    with 1 show ?thesis by (simp add: join_sep_Cons split_sep_nonempty)
  next
    case False
    obtain p ps where sp: "split_sep (d # cs) = p # ps"
      using split_sep_nonempty[of "d # cs"] by (cases "split_sep (d # cs)") auto
    with 1 False show ?thesis by (auto simp add: join_sep_Cons_char)
  qed
qed auto

lemma length_split: "length (split_sep s) = Suc (count_sep s)"
  by (induction s rule: split_sep.induct) (auto split: list.splits simp: split_sep_nonempty)

lemma has_sep_count: "has_sep s = (0 < count_sep s)"
  by (induction s rule: count_sep.induct) auto

lemma no_sep_split: "\<not> has_sep s \<Longrightarrow> split_sep s = [s]"
  by (induction s rule: split_sep.induct) (auto split: list.splits)

lemma split_sep_other:
  "\<not> (c = CHR '':'' \<and> d = CHR '':'') \<Longrightarrow> split_sep (d # cs) = p # ps \<Longrightarrow>
   split_sep (c # d # cs) = (c # p) # ps"
  by auto

lemma take_split_hd:
  "0 < k \<Longrightarrow> join_sep (take k (split_sep s)) \<noteq> [] \<Longrightarrow> hd (join_sep (take k (split_sep s))) = hd s"
proof (induction s rule: split_sep.induct)
  case (1 c d cs)
  obtain k' where k: "k = Suc k'" using 1(3) by (cases k) auto
  show ?case
  proof (cases "c = CHR '':'' \<and> d = CHR '':''")
    case True
    show ?thesis
    proof (cases "take k' (split_sep cs)")
      case Nil
      with 1 True k show ?thesis by simp
    next
      case (Cons a list)
      with True k show ?thesis by simp
    qed
  next
    case False
    obtain p ps where sp: "split_sep (d # cs) = p # ps"
      using split_sep_nonempty[of "d # cs"] by (cases "split_sep (d # cs)") auto
    have "split_sep (c # d # cs) = (c # p) # ps" using split_sep_other[OF False sp] .
    then show ?thesis using k by (simp add: join_sep_Cons_char)
  qed
next
  case (2 c)
  then show ?case by (cases k) auto
next
  case 3
  then show ?case by (cases k) auto
qed

lemma count_sep_Cons_other:
  "t = [] \<or> \<not> (c = CHR '':'' \<and> hd t = CHR '':'') \<Longrightarrow> count_sep (c # t) = count_sep t"
  by (cases t) auto

lemma count_take_split:
  "0 < k \<Longrightarrow> k \<le> length (split_sep s) \<Longrightarrow>
   count_sep (join_sep (take k (split_sep s))) = k - 1"
proof (induction s arbitrary: k rule: split_sep.induct)
  case (1 c d cs)
  obtain k' where k: "k = Suc k'" using 1(3) by (cases k) auto
  show ?case
  proof (cases "c = CHR '':'' \<and> d = CHR '':''")
    case True
    show ?thesis
    proof (cases k')
      case 0
      with True k show ?thesis by simp
    next
      case (Suc j)
      have "take k' (split_sep cs) \<noteq> []" using Suc split_sep_nonempty[of cs] by (cases "split_sep cs") auto
      moreover have "count_sep (join_sep (take k' (split_sep cs))) = k' - 1"
        using 1(1)[OF True, of k'] 1(4) True k Suc by simp
      ultimately show ?thesis using True k Suc by (simp add: join_sep_Cons)
    qed
  next
    case False
    obtain p ps where sp: "split_sep (d # cs) = p # ps"
      using split_sep_nonempty[of "d # cs"] by (cases "split_sep (d # cs)") auto
    let ?t = "join_sep (take k (split_sep (d # cs)))"
    have eq: "join_sep (take k (split_sep (c # d # cs))) = c # ?t"
      using split_sep_other[OF False sp] sp k by (simp add: join_sep_Cons_char)
    have "k \<le> length (split_sep (d # cs))"
      using 1(4) split_sep_other[OF False sp] sp by simp
    then have ih: "count_sep ?t = k - 1"
      using 1(2)[OF False, of k] 1(3) by simp
    have "?t = [] \<or> \<not> (c = CHR '':'' \<and> hd ?t = CHR '':'')"
      using take_split_hd[of k "d # cs"] 1(3) False by auto
    then show ?thesis using eq ih count_sep_Cons_other by metis
  qed
next
  case (2 c)
  then show ?case by (cases k) auto
next
  case 3
  then show ?case by (cases k) auto
qed

section \<open>What the hierarchy builder stores\<close>

lemma hrel_dict_add: "hrel (dict_add h p c) = insert (p, c) (hrel h)"
  by (auto simp: hrel_def dict_add_def dict_set_def split: if_splits)

lemma dom_dict_add: "dom (dict_add h p c) = insert p (dom h)"
  by (auto simp: dict_add_def)

lemma nonempty_dict_add: "nonempty_vals h \<Longrightarrow> nonempty_vals (dict_add h p c)"
  by (auto simp: nonempty_vals_def dict_add_def)

lemma dom_hrel: "nonempty_vals h \<Longrightarrow> dom h = Domain (hrel h)"
  by (fastforce simp: nonempty_vals_def hrel_def dict_set_def split: option.splits)

lemma foldl_add_edge:
  "tag_hierarchy (foldl (add_edge parts) st is) =
     foldl (\<lambda>h i. dict_add h (join_sep (take (i + 1) parts)) (join_sep (take (i + 2) parts)))
       (tag_hierarchy st) is
   \<and> tag_to_cards (foldl (add_edge parts) st is) = tag_to_cards st
   \<and> unique_card_ids (foldl (add_edge parts) st is) = unique_card_ids st
   \<and> card_to_tags (foldl (add_edge parts) st is) = card_to_tags st
   \<and> hierarchy_built (foldl (add_edge parts) st is) = hierarchy_built st"
  by (induction "is" arbitrary: st) (auto simp: add_edge_def)

lemma foldl_dict_add_hrel:
  "hrel (foldl (\<lambda>h i. dict_add h (f i) (g i)) h is) = hrel h \<union> (\<lambda>i. (f i, g i)) ` set is"
  by (induction "is" arbitrary: h) (auto simp: hrel_dict_add)

lemma foldl_dict_add_nonempty:
  "nonempty_vals h \<Longrightarrow> nonempty_vals (foldl (\<lambda>h i. dict_add h (f i) (g i)) h is)"
  by (induction "is" arbitrary: h) (auto simp: nonempty_dict_add)

lemma edges_of_no_sep: "\<not> has_sep tag \<Longrightarrow> edges_of tag = {}"
  by (simp add: edges_of_def no_sep_split)

lemma build_tag_hierarchy_fast_hrel:
  "hrel (tag_hierarchy (build_tag_hierarchy_fast st tag)) = hrel (tag_hierarchy st) \<union> edges_of tag"
proof (cases "has_sep tag")
  case True
  then show ?thesis
    by (simp add: build_tag_hierarchy_fast_def Let_def foldl_add_edge foldl_dict_add_hrel
        edges_of_def)
next
  case False
  then show ?thesis by (simp add: build_tag_hierarchy_fast_def edges_of_no_sep)
qed

lemma build_tag_hierarchy_fast_nonempty:
  "nonempty_vals (tag_hierarchy st) \<Longrightarrow>
   nonempty_vals (tag_hierarchy (build_tag_hierarchy_fast st tag))"
  by (simp add: build_tag_hierarchy_fast_def Let_def foldl_add_edge foldl_dict_add_nonempty)

lemma build_tag_hierarchy_fast_other:
  "tag_to_cards (build_tag_hierarchy_fast st tag) = tag_to_cards st"
  "unique_card_ids (build_tag_hierarchy_fast st tag) = unique_card_ids st"
  "hierarchy_built (build_tag_hierarchy_fast st tag) = hierarchy_built st"
  by (simp_all add: build_tag_hierarchy_fast_def Let_def foldl_add_edge)

lemma foldl_add_card:
  "fst (foldl (add_card tag) (ids, st) cards) = ids \<union> card_id_set cards
   \<and> tag_hierarchy (snd (foldl (add_card tag) (ids, st) cards)) = tag_hierarchy st
   \<and> tag_to_cards (snd (foldl (add_card tag) (ids, st) cards)) = tag_to_cards st
   \<and> hierarchy_built (snd (foldl (add_card tag) (ids, st) cards)) = hierarchy_built st
   \<and> unique_card_ids (snd (foldl (add_card tag) (ids, st) cards))
       = unique_card_ids st \<union> card_id_set cards"
proof (induction cards arbitrary: ids st)
  case Nil
  then show ?case by (simp add: card_id_set_def)
next
  case (Cons c cards)
  have cs: "card_id_set (c # cards) =
      (case cid c of Some i \<Rightarrow> if i \<noteq> 0 then {i} else {} | None \<Rightarrow> {}) \<union> card_id_set cards"
    by (auto simp: card_id_set_def split: option.splits)
  obtain ids' st' where step: "add_card tag (ids, st) c = (ids', st')"
    by (cases "add_card tag (ids, st) c") auto
  let ?one = "(case cid c of Some i \<Rightarrow> if i \<noteq> 0 then {i} else {} | None \<Rightarrow> {})"
  have s: "ids' = ids \<union> ?one" "tag_hierarchy st' = tag_hierarchy st"
    "tag_to_cards st' = tag_to_cards st" "hierarchy_built st' = hierarchy_built st"
    "unique_card_ids st' = unique_card_ids st \<union> ?one"
    using step by (auto simp: add_card_def split: option.splits if_splits)
  show ?case
    using Cons[of ids' st'] by (simp add: step s cs Un_assoc)
qed

lemma add_tag_fields:
  "tag_to_cards (add_tag st (tag, cards)) = (tag_to_cards st)(tag \<mapsto> card_id_set cards)"
  "hrel (tag_hierarchy (add_tag st (tag, cards))) = hrel (tag_hierarchy st) \<union> edges_of tag"
  "unique_card_ids (add_tag st (tag, cards)) = unique_card_ids st \<union> card_id_set cards"
  "nonempty_vals (tag_hierarchy st) \<Longrightarrow> nonempty_vals (tag_hierarchy (add_tag st (tag, cards)))"
  "hierarchy_built (add_tag st (tag, cards)) = hierarchy_built st"
proof -
  obtain ids st1 where f: "foldl (add_card tag) ({}, st) cards = (ids, st1)"
    by (cases "foldl (add_card tag) ({}, st) cards") auto
  have a: "ids = card_id_set cards" "tag_hierarchy st1 = tag_hierarchy st"
    "tag_to_cards st1 = tag_to_cards st" "unique_card_ids st1 = unique_card_ids st \<union> card_id_set cards"
    "hierarchy_built st1 = hierarchy_built st"
    using foldl_add_card[of tag "{}" st cards] f by auto
  show "tag_to_cards (add_tag st (tag, cards)) = (tag_to_cards st)(tag \<mapsto> card_id_set cards)"
    by (simp add: add_tag_def f a build_tag_hierarchy_fast_other)
  show "hrel (tag_hierarchy (add_tag st (tag, cards))) = hrel (tag_hierarchy st) \<union> edges_of tag"
    by (simp add: add_tag_def f a build_tag_hierarchy_fast_hrel)
  show "unique_card_ids (add_tag st (tag, cards)) = unique_card_ids st \<union> card_id_set cards"
    by (simp add: add_tag_def f a build_tag_hierarchy_fast_other)
  show "nonempty_vals (tag_hierarchy st) \<Longrightarrow> nonempty_vals (tag_hierarchy (add_tag st (tag, cards)))"
    by (simp add: add_tag_def f a build_tag_hierarchy_fast_nonempty)
  show "hierarchy_built (add_tag st (tag, cards)) = hierarchy_built st"
    by (simp add: add_tag_def f a build_tag_hierarchy_fast_other)
qed

lemma foldl_add_tag:
  "hrel (tag_hierarchy (foldl add_tag st cbt)) = hrel (tag_hierarchy st) \<union> (\<Union>t \<in> fst ` set cbt. edges_of t)"
  "unique_card_ids (foldl add_tag st cbt) = unique_card_ids st \<union> (\<Union>cs \<in> snd ` set cbt. card_id_set cs)"
  "tag_to_cards (foldl add_tag st cbt) =
     tag_to_cards st ++ map_of (rev (map (\<lambda>(t, cs). (t, card_id_set cs)) cbt))"
  "nonempty_vals (tag_hierarchy st) \<Longrightarrow> nonempty_vals (tag_hierarchy (foldl add_tag st cbt))"
proof (induction cbt arbitrary: st)
  case Nil
  { case 1 show ?case by simp }
  { case 2 show ?case by simp }
  { case 3 show ?case by simp }
  { case 4 then show ?case by simp }
next
  case (Cons x cbt)
  obtain t cs where x: "x = (t, cs)" by (cases x)
  { case 1 show ?case by (auto simp: x Cons add_tag_fields) }
  { case 2 show ?case by (auto simp: x Cons add_tag_fields) }
  { case 3
    let ?M = "map_of (rev (map (\<lambda>(t, cs). (t, card_id_set cs)) cbt))"
    have "tag_to_cards (foldl add_tag st (x # cbt)) = tag_to_cards (add_tag st (t, cs)) ++ ?M"
      using Cons(3)[of "add_tag st (t, cs)"] by (simp add: x)
    also have "\<dots> = (tag_to_cards st)(t \<mapsto> card_id_set cs) ++ ?M"
      by (simp only: add_tag_fields(1))
    also have "\<dots> = tag_to_cards st ++ ([t \<mapsto> card_id_set cs] ++ ?M)"
      by (rule ext) (simp add: map_add_def split: option.splits)
    also have "[t \<mapsto> card_id_set cs] ++ ?M
        = map_of (rev (map (\<lambda>(t, cs). (t, card_id_set cs)) (x # cbt)))"
      by (simp add: x)
    finally show ?case . }
  { case 4 then show ?case by (simp add: x Cons add_tag_fields) }
qed

lemma nonempty_new: "nonempty_vals (tag_hierarchy new_counter)"
  by (simp add: nonempty_vals_def new_counter_def)

lemma hrel_new: "hrel (tag_hierarchy new_counter) = {}"
  by (simp add: hrel_def new_counter_def dict_set_def)

lemma build_hrel:
  "hrel (tag_hierarchy (build_hierarchy_from_cards new_counter cbt)) = (\<Union>t \<in> fst ` set cbt. edges_of t)"
  by (simp add: build_hierarchy_from_cards_def new_counter_def[THEN arg_cong, of hierarchy_built]
      foldl_add_tag(1) hrel_new)

lemma build_nonempty:
  "nonempty_vals (tag_hierarchy (build_hierarchy_from_cards new_counter cbt))"
  by (simp add: build_hierarchy_from_cards_def new_counter_def[THEN arg_cong, of hierarchy_built]
      foldl_add_tag(4) nonempty_new)

lemma build_tag_to_cards:
  "tag_to_cards (build_hierarchy_from_cards new_counter cbt)
     = map_of (rev (map (\<lambda>(t, cs). (t, card_id_set cs)) cbt))"
  by (simp add: build_hierarchy_from_cards_def new_counter_def[THEN arg_cong, of hierarchy_built]
      foldl_add_tag(3) new_counter_def[THEN arg_cong, of tag_to_cards])

lemma build_unique:
  "unique_card_ids (build_hierarchy_from_cards new_counter cbt)
     = (\<Union>cs \<in> snd ` set cbt. card_id_set cs)"
  by (simp add: build_hierarchy_from_cards_def new_counter_def[THEN arg_cong, of hierarchy_built]
      foldl_add_tag(2) new_counter_def[THEN arg_cong, of unique_card_ids])

lemma build_dom_tag_to_cards:
  "dom (tag_to_cards (build_hierarchy_from_cards new_counter cbt)) = fst ` set cbt"
  by (force simp: build_tag_to_cards dom_map_of_conv_image_fst)

lemma finite_card_id_set: "finite (card_id_set cards)"
proof -
  have "card_id_set cards \<subseteq> the ` cid ` set cards"
    by (force simp: card_id_set_def)
  then show ?thesis by (rule finite_subset) simp
qed

lemma build_direct_finite:
  "finite (dict_set (tag_to_cards (build_hierarchy_from_cards new_counter cbt)) t)"
proof (cases "tag_to_cards (build_hierarchy_from_cards new_counter cbt) t")
  case None
  then show ?thesis by (simp add: dict_set_def)
next
  case (Some s)
  then have "(t, s) \<in> set (rev (map (\<lambda>(t, cs). (t, card_id_set cs)) cbt))"
    unfolding build_tag_to_cards by (rule map_of_SomeD)
  then obtain cs where "s = card_id_set cs" by auto
  then show ?thesis using Some by (simp add: dict_set_def finite_card_id_set)
qed

lemma edges_of_depth: "(p, c) \<in> edges_of tag \<Longrightarrow> count_sep c = Suc (count_sep p)"
  by (auto simp: edges_of_def count_take_split)

lemma edges_of_child: "(p, c) \<in> edges_of tag \<Longrightarrow> c = tag \<or> c \<in> Domain (edges_of tag)"
proof -
  assume "(p, c) \<in> edges_of tag"
  then obtain i where i: "i < length (split_sep tag) - 1"
    and c: "c = join_sep (take (i + 2) (split_sep tag))"
    by (auto simp: edges_of_def)
  show ?thesis
  proof (cases "i + 2 = length (split_sep tag)")
    case True
    then show ?thesis using c by (simp add: join_split)
  next
    case False
    then have "i + 1 < length (split_sep tag) - 1" using i by simp
    then have "(join_sep (take (i + 1 + 1) (split_sep tag)), join_sep (take (i + 1 + 2) (split_sep tag)))
        \<in> edges_of tag"
      unfolding edges_of_def by (intro imageI) simp
    then show ?thesis using c by (auto simp: Domain.simps)
  qed
qed

lemma build_child_depth:
  assumes "c \<in> dict_set (tag_hierarchy (build_hierarchy_from_cards new_counter cbt)) p"
  shows "count_sep c = Suc (count_sep p)"
proof -
  have "(p, c) \<in> hrel (tag_hierarchy (build_hierarchy_from_cards new_counter cbt))"
    using assms by (simp add: hrel_def)
  then show ?thesis by (auto simp: build_hrel edges_of_depth)
qed

lemma build_child_node:
  assumes "c \<in> dict_set (tag_hierarchy (build_hierarchy_from_cards new_counter cbt)) p"
  shows "c \<in> all_tags (build_hierarchy_from_cards new_counter cbt)"
proof -
  let ?st = "build_hierarchy_from_cards new_counter cbt"
  have "(p, c) \<in> hrel (tag_hierarchy ?st)"
    using assms by (simp add: hrel_def)
  then obtain t where t: "t \<in> fst ` set cbt" "(p, c) \<in> edges_of t"
    by (auto simp: build_hrel)
  from edges_of_child[OF t(2)] show ?thesis
  proof
    assume "c = t"
    then show ?thesis using t(1) by (simp add: all_tags_def build_dom_tag_to_cards)
  next
    assume "c \<in> Domain (edges_of t)"
    then have "c \<in> Domain (hrel (tag_hierarchy ?st))"
      using t(1) by (auto simp: build_hrel)
    then show ?thesis by (simp add: all_tags_def dom_hrel[OF build_nonempty])
  qed
qed

section \<open>The bottom-up pass\<close>

lemma process_tag_dom: "dom (process_tag st h tag) = insert tag (dom h)"
  by (simp add: process_tag_def Let_def)

lemma process_tag_other: "t \<noteq> tag \<Longrightarrow> process_tag st h tag t = h t"
  by (simp add: process_tag_def Let_def)

lemma foldl_process_dom: "dom (foldl (process_tag st) h xs) = dom h \<union> set xs"
  by (induction xs arbitrary: h) (auto simp: process_tag_dom)

lemma foldl_process_other: "t \<notin> set xs \<Longrightarrow> foldl (process_tag st) h xs t = h t"
  by (induction xs arbitrary: h) (auto simp: process_tag_other)

lemma foldl_process_at:
  assumes "tag \<notin> set post"
  shows "foldl (process_tag st) h (pre @ tag # post) tag
           = process_tag st (foldl (process_tag st) h pre) tag tag"
  using assms by (simp add: foldl_process_other)

lemma sorted_tags_set: "set (sorted_tags enum) = set enum"
  by (simp add: sorted_tags_def)

lemma sorted_tags_distinct: "distinct (sorted_tags enum) = distinct enum"
  by (simp add: sorted_tags_def)

lemma sorted_tags_order:
  assumes "sorted_tags enum = pre @ tag # post" "x \<in> set post"
  shows "count_sep x \<le> count_sep tag"
proof -
  have "sorted (map (\<lambda>x. - int (count_sep x)) (sorted_tags enum))"
    by (simp add: sorted_tags_def)
  then have "- int (count_sep tag) \<le> - int (count_sep x)"
    using assms by (auto simp: sorted_append)
  then show ?thesis by simp
qed

lemma child_processed_before:
  assumes en: "enumerates enum (all_tags (build_hierarchy_from_cards new_counter cbt))"
    and sp: "sorted_tags enum = pre @ tag # post"
    and ch: "child \<in> dict_set (tag_hierarchy (build_hierarchy_from_cards new_counter cbt)) tag"
  shows "child \<in> set pre"
proof -
  have d: "count_sep child = Suc (count_sep tag)" using build_child_depth[OF ch] .
  have "child \<in> set (sorted_tags enum)"
    using build_child_node[OF ch] en by (simp add: sorted_tags_set enumerates_def)
  then have "child \<in> set pre \<or> child = tag \<or> child \<in> set post" using sp by auto
  moreover have "child \<noteq> tag" using d by auto
  moreover have "child \<notin> set post" using sorted_tags_order[OF sp, of child] d by auto
  ultimately show ?thesis by blast
qed

lemma node_equation:
  assumes en: "enumerates enum (all_tags (build_hierarchy_from_cards new_counter cbt))"
    and tag: "tag \<in> all_tags (build_hierarchy_from_cards new_counter cbt)"
  shows "rolled_up (calculate_hierarchical_counts (build_hierarchy_from_cards new_counter cbt) enum) tag
     = dict_set (tag_to_cards (build_hierarchy_from_cards new_counter cbt)) tag
       \<union> (\<Union>c \<in> dict_set (tag_hierarchy (build_hierarchy_from_cards new_counter cbt)) tag.
            rolled_up (calculate_hierarchical_counts (build_hierarchy_from_cards new_counter cbt) enum) c)"
proof -
  let ?st = "build_hierarchy_from_cards new_counter cbt"
  let ?R = "calculate_hierarchical_counts ?st enum"
  have "tag \<in> set (sorted_tags enum)" using en tag by (simp add: sorted_tags_set enumerates_def)
  then obtain pre post where sp: "sorted_tags enum = pre @ tag # post"
    by (auto dest: split_list)
  have dist: "distinct (pre @ tag # post)"
    using en sorted_tags_distinct[of enum] sp by (simp add: enumerates_def)
  let ?H = "foldl (process_tag ?st) Map.empty pre"
  have R: "?R = foldl (process_tag ?st) ?H (tag # post)"
    by (simp add: calculate_hierarchical_counts_def sp)
  have Rtag: "?R tag = process_tag ?st ?H tag tag"
    using dist by (simp add: calculate_hierarchical_counts_def sp foldl_process_other)
  have child: "child_cards ?st ?H c = rolled_up ?R c" if c: "c \<in> dict_set (tag_hierarchy ?st) tag" for c
  proof -
    have cp: "c \<in> set pre" using child_processed_before[OF en sp c] .
    then have "c \<in> dom ?H" by (simp add: foldl_process_dom)
    then obtain info where i: "?H c = Some info" by auto
    have "c \<notin> set (tag # post)" using cp dist by auto
    then have "?R c = ?H c" unfolding R by (rule foldl_process_other)
    then show ?thesis by (simp add: child_cards_def rolled_up_def i)
  qed
  show ?thesis
    by (simp add: rolled_up_def[of ?R tag] Rtag process_tag_def Let_def child)
qed

section \<open>The example collection, evaluated\<close>

lemma card_id_set_simps:
  "card_id_set [] = {}"
  "card_id_set (c # cs) =
     (case cid c of Some i \<Rightarrow> if i \<noteq> 0 then {i} else {} | None \<Rightarrow> {}) \<union> card_id_set cs"
  by (auto simp: card_id_set_def split: option.splits)

lemma children_hrel: "dict_set h p = hrel h `` {p}"
  by (auto simp: hrel_def)

lemma ex_edges:
  "edges_of ''a::b::c'' = {(''a'', ''a::b''), (''a::b'', ''a::b::c'')}"
  "edges_of ''a::b'' = {(''a'', ''a::b'')}"
  "edges_of ''a::d'' = {(''a'', ''a::d'')}"
  by (auto simp: edges_of_def atLeast0_lessThan_Suc)

lemma ex_hrel:
  "hrel (tag_hierarchy ex_counter) = {(''a'', ''a::b''), (''a::b'', ''a::b::c''), (''a'', ''a::d'')}"
  by (auto simp: build_hrel ex_cards_by_tag_def ex_edges)

lemma ex_children:
  "dict_set (tag_hierarchy ex_counter) t =
     (if t = ''a'' then {''a::b'', ''a::d''} else if t = ''a::b'' then {''a::b::c''} else {})"
  by (auto simp: children_hrel ex_hrel)

lemma ex_direct:
  "dict_set (tag_to_cards ex_counter) t =
     (if t = ''a::b::c'' then {1} else if t = ''a::b'' then {2} else if t = ''a::d'' then {1, 3} else {})"
  by (auto simp: build_tag_to_cards ex_cards_by_tag_def dict_set_def card_id_set_simps mk_card_def)

lemma ex_all_tags: "all_tags ex_counter = {''a'', ''a::b'', ''a::b::c'', ''a::d''}"
  by (auto simp: all_tags_def build_dom_tag_to_cards dom_hrel[OF build_nonempty] ex_hrel)
     (auto simp: ex_cards_by_tag_def)

lemma ex_enumerates: "enumerates ex_enum (all_tags ex_counter)"
  by (auto simp: enumerates_def ex_all_tags ex_enum_def)

lemma ex_sorted: "sorted_tags ex_enum = [''a::b::c'', ''a::d'', ''a::b'', ''a'']"
  by (simp add: sorted_tags_def ex_enum_def)

lemma ex_parents: "get_parent_tags_fast ''a'' = []" "get_parent_tags_fast ''a::b'' = [''a'']"
  by (simp_all add: get_parent_tags_fast_def)

lemma ex_calc_a:
  "calculate_hierarchical_counts ex_counter ex_enum ''a'' =
     Some \<lparr>direct_cards = {}, all_unique_cards = {1, 2, 3}, direct_count = 0,
           hierarchical_count = 3, children_count = 3,
           children_tags = {''a::b'', ''a::d''}, parent_tags = []\<rparr>"
  by (simp add: calculate_hierarchical_counts_def ex_sorted process_tag_def ex_direct ex_children
      child_cards_def ex_parents Let_def insert_commute)

lemma ex_calc_b:
  "calculate_hierarchical_counts ex_counter ex_enum ''a::b'' =
     Some \<lparr>direct_cards = {2}, all_unique_cards = {1, 2}, direct_count = 1,
           hierarchical_count = 2, children_count = 1,
           children_tags = {''a::b::c''}, parent_tags = [''a'']\<rparr>"
  by (simp add: calculate_hierarchical_counts_def ex_sorted process_tag_def ex_direct ex_children
      child_cards_def ex_parents Let_def insert_commute)

section \<open>C5: every child is processed before its parent\<close>

text \<open>
  Claim C5. The tags are processed in the order \<open>sorted_tags enum\<close>, deepest first. When
  the loop reaches \<open>tag\<close>, the tags before it are \<open>pre\<close> and \<open>hierarchical_data\<close> is the
  fold over \<open>pre\<close>. Every child of \<open>tag\<close> is one level deeper, stands in \<open>pre\<close>, and is a key
  of \<open>hierarchical_data\<close> at that moment, so the loop body takes the child's computed set
  and never the fallback. This holds for every input and every order in which Python may
  enumerate the set of tags.
\<close>

theorem children_processed_before_parent:
  assumes "enumerates enum (all_tags (build_hierarchy_from_cards new_counter cards_by_tag))"
    and "sorted_tags enum = pre @ tag # post"
    and "child \<in> dict_set (tag_hierarchy (build_hierarchy_from_cards new_counter cards_by_tag)) tag"
  shows "count_sep child = Suc (count_sep tag) \<and> child \<in> set pre \<and>
    (\<exists>info.
       foldl (process_tag (build_hierarchy_from_cards new_counter cards_by_tag)) Map.empty pre child
         = Some info \<and>
       child_cards (build_hierarchy_from_cards new_counter cards_by_tag)
         (foldl (process_tag (build_hierarchy_from_cards new_counter cards_by_tag)) Map.empty pre) child
         = all_unique_cards info)"
proof -
  let ?st = "build_hierarchy_from_cards new_counter cards_by_tag"
  let ?H = "foldl (process_tag ?st) Map.empty pre"
  have d: "count_sep child = Suc (count_sep tag)" using build_child_depth[OF assms(3)] .
  have p: "child \<in> set pre" using child_processed_before[OF assms] .
  then have "child \<in> dom ?H" by (simp add: foldl_process_dom)
  then obtain info where i: "?H child = Some info" by auto
  then have "child_cards ?st ?H child = all_unique_cards info" by (simp add: child_cards_def)
  with d p i show ?thesis by blast
qed

theorem children_processed_before_parent_witness:
  "enumerates ex_enum (all_tags (ex_counter)) \<and>
   sorted_tags ex_enum = [''a::b::c'', ''a::d'', ''a::b''] @ ''a'' # [] \<and>
   ''a::b'' \<in> dict_set (tag_hierarchy (ex_counter)) ''a'' \<and>
   count_sep ''a::b'' = Suc (count_sep ''a'') \<and>
   ''a::b'' \<in> set [''a::b::c'', ''a::d'', ''a::b''] \<and>
   (\<exists>info.
       foldl (process_tag (ex_counter)) Map.empty
         [''a::b::c'', ''a::d'', ''a::b''] ''a::b'' = Some info \<and>
       child_cards (ex_counter)
         (foldl (process_tag (ex_counter)) Map.empty
            [''a::b::c'', ''a::d'', ''a::b'']) ''a::b''
         = all_unique_cards info)"
proof -
  have h1: "enumerates ex_enum (all_tags (ex_counter))"
    by (rule ex_enumerates)
  have h2: "sorted_tags ex_enum = [''a::b::c'', ''a::d'', ''a::b''] @ ''a'' # []"
    by (simp add: ex_sorted)
  have h3: "''a::b'' \<in> dict_set (tag_hierarchy (ex_counter)) ''a''"
    by (simp add: ex_children)
  show ?thesis
    using children_processed_before_parent[OF h1 h2 h3] h1 h2 h3 by blast
qed

lemma hrel_parent_node:
  "(p, c) \<in> hrel (tag_hierarchy (build_hierarchy_from_cards new_counter cbt)) \<Longrightarrow>
   p \<in> all_tags (build_hierarchy_from_cards new_counter cbt)"
  by (auto simp: all_tags_def dom_hrel[OF build_nonempty])

lemma rolled_up_descendant_subset:
  assumes en: "enumerates enum (all_tags (build_hierarchy_from_cards new_counter cbt))"
    and d: "(t, d) \<in> (hrel (tag_hierarchy (build_hierarchy_from_cards new_counter cbt)))\<^sup>+"
  shows "rolled_up (calculate_hierarchical_counts (build_hierarchy_from_cards new_counter cbt) enum) d
     \<subseteq> rolled_up (calculate_hierarchical_counts (build_hierarchy_from_cards new_counter cbt) enum) t"
  using d
proof (induction rule: trancl_induct)
  case (base y)
  then have "y \<in> dict_set (tag_hierarchy (build_hierarchy_from_cards new_counter cbt)) t"
    by (simp add: hrel_def)
  then show ?case
    using node_equation[OF en hrel_parent_node[OF base]] by blast
next
  case (step y z)
  then have "z \<in> dict_set (tag_hierarchy (build_hierarchy_from_cards new_counter cbt)) y"
    by (simp add: hrel_def)
  then have "rolled_up (calculate_hierarchical_counts (build_hierarchy_from_cards new_counter cbt) enum) z
     \<subseteq> rolled_up (calculate_hierarchical_counts (build_hierarchy_from_cards new_counter cbt) enum) y"
    using node_equation[OF en hrel_parent_node[OF step(2)]] by blast
  with step show ?case by blast
qed

lemma calculate_dom:
  "enumerates enum (all_tags st) \<Longrightarrow> dom (calculate_hierarchical_counts st enum) = all_tags st"
  by (simp add: calculate_hierarchical_counts_def foldl_process_dom sorted_tags_set enumerates_def)

lemma calculate_entry:
  assumes "calculate_hierarchical_counts st enum tag = Some info"
  shows "\<exists>h. info = the (process_tag st h tag tag)"
proof -
  have "tag \<in> set (sorted_tags enum)"
    using assms foldl_process_dom[of st Map.empty "sorted_tags enum"]
    by (auto simp: calculate_hierarchical_counts_def)
  then obtain pre post where sp: "sorted_tags enum = pre @ tag # post" "tag \<notin> set post"
    by (auto dest: split_list_last)
  have "calculate_hierarchical_counts st enum tag
      = process_tag st (foldl (process_tag st) Map.empty pre) tag tag"
    by (simp add: calculate_hierarchical_counts_def sp foldl_process_other)
  then show ?thesis using assms by (metis option.sel)
qed

lemma calculate_direct:
  assumes "calculate_hierarchical_counts st enum tag = Some info"
  shows "direct_cards info = dict_set (tag_to_cards st) tag"
    and "direct_count info = int (card (direct_cards info))"
    and "hierarchical_count info = int (card (all_unique_cards info))"
    and "children_count info = hierarchical_count info - direct_count info"
    and "direct_cards info \<subseteq> all_unique_cards info"
    and "children_tags info = dict_set (tag_hierarchy st) tag"
    and "parent_tags info = get_parent_tags_fast tag"
  using calculate_entry[OF assms] by (auto simp: process_tag_def Let_def)

section \<open>C1: the rolled-up set is the union over the descendants\<close>

text \<open>
  Claim C1. For every input and every tag of the result, \<open>all_unique_cards\<close> is the union of
  the tag's direct card-id set and the rolled-up sets of all its descendants, and
  \<open>hierarchical_count\<close> is the number of elements of that union: an identifier reached over
  several descendants is one element of the set and is counted once.
\<close>

theorem rolled_up_is_union_over_descendants:
  assumes "enumerates enum (all_tags (build_hierarchy_from_cards new_counter cards_by_tag))"
    and "calculate_hierarchical_counts (build_hierarchy_from_cards new_counter cards_by_tag) enum tag
           = Some info"
  shows "all_unique_cards info =
           direct_cards info \<union>
           (\<Union>d \<in> descendants (build_hierarchy_from_cards new_counter cards_by_tag) tag.
              rolled_up (calculate_hierarchical_counts
                 (build_hierarchy_from_cards new_counter cards_by_tag) enum) d)
       \<and> direct_cards info = dict_set (tag_to_cards (build_hierarchy_from_cards new_counter cards_by_tag)) tag
       \<and> hierarchical_count info = int (card (all_unique_cards info))"
proof -
  let ?st = "build_hierarchy_from_cards new_counter cards_by_tag"
  let ?R = "calculate_hierarchical_counts ?st enum"
  have tag: "tag \<in> all_tags ?st" using calculate_dom[OF assms(1)] assms(2) by auto
  have ru: "rolled_up ?R tag = all_unique_cards info" by (simp add: rolled_up_def assms(2))
  have dc: "direct_cards info = dict_set (tag_to_cards ?st) tag"
    using calculate_direct(1)[OF assms(2)] .
  have eq: "all_unique_cards info = direct_cards info \<union> (\<Union>c \<in> dict_set (tag_hierarchy ?st) tag. rolled_up ?R c)"
    using node_equation[OF assms(1) tag] by (simp add: ru dc)
  have sub: "dict_set (tag_hierarchy ?st) tag \<subseteq> descendants ?st tag"
    by (auto simp: descendants_def hrel_def)
  have le: "all_unique_cards info \<subseteq> direct_cards info \<union> (\<Union>d \<in> descendants ?st tag. rolled_up ?R d)"
    using eq sub by blast
  have ge: "(\<Union>d \<in> descendants ?st tag. rolled_up ?R d) \<subseteq> all_unique_cards info"
    using rolled_up_descendant_subset[OF assms(1)] ru by (auto simp: descendants_def)
  have "direct_cards info \<subseteq> all_unique_cards info" using eq by blast
  with le ge have "all_unique_cards info =
           direct_cards info \<union> (\<Union>d \<in> descendants ?st tag. rolled_up ?R d)" by blast
  then show ?thesis using dc calculate_direct(3)[OF assms(2)] by blast
qed


theorem rolled_up_is_union_over_descendants_witness:
  "enumerates ex_enum (all_tags ex_counter) \<and>
   calculate_hierarchical_counts ex_counter ex_enum ''a'' =
     Some \<lparr>direct_cards = {}, all_unique_cards = {1, 2, 3}, direct_count = 0,
           hierarchical_count = 3, children_count = 3,
           children_tags = {''a::b'', ''a::d''}, parent_tags = []\<rparr> \<and>
   {1, 2, 3} = {} \<union> (\<Union>d \<in> descendants ex_counter ''a''.
                  rolled_up (calculate_hierarchical_counts ex_counter ex_enum) d) \<and>
   {} = dict_set (tag_to_cards ex_counter) ''a'' \<and>
   (3::int) = int (card {1, 2, 3::int})"
proof -
  note t = rolled_up_is_union_over_descendants[OF ex_enumerates ex_calc_a]
  have a: "{1, 2, 3} = {} \<union> (\<Union>d \<in> descendants ex_counter ''a''.
                  rolled_up (calculate_hierarchical_counts ex_counter ex_enum) d)"
    using t by simp
  have b: "{} = dict_set (tag_to_cards ex_counter) ''a''"
    using t by simp
  have c: "(3::int) = int (card {1, 2, 3::int})" by simp
  show ?thesis
    by (intro conjI) (rule ex_enumerates ex_calc_a a b c)+
qed

lemma finite_edges_of: "finite (edges_of t)"
  by (simp add: edges_of_def)

lemma build_children_finite:
  "finite (dict_set (tag_hierarchy (build_hierarchy_from_cards new_counter cbt)) t)"
proof -
  have "finite (hrel (tag_hierarchy (build_hierarchy_from_cards new_counter cbt)))"
    by (simp add: build_hrel finite_edges_of)
  then have "finite (Range (hrel (tag_hierarchy (build_hierarchy_from_cards new_counter cbt))))"
    by (simp add: finite_Range)
  moreover have "dict_set (tag_hierarchy (build_hierarchy_from_cards new_counter cbt)) t
      \<subseteq> Range (hrel (tag_hierarchy (build_hierarchy_from_cards new_counter cbt)))"
    by (auto simp: hrel_def)
  ultimately show ?thesis by (rule rev_finite_subset)
qed

lemma process_tag_finite:
  assumes "finite_rolled h"
  shows "finite_rolled (process_tag (build_hierarchy_from_cards new_counter cbt) h tag)"
proof -
  let ?st = "build_hierarchy_from_cards new_counter cbt"
  have c: "finite (child_cards ?st h c)" for c
    using assms build_direct_finite[of cbt c]
    by (auto simp: child_cards_def finite_rolled_def split: option.splits)
  have "finite (dict_set (tag_to_cards ?st) tag \<union> (\<Union>c \<in> dict_set (tag_hierarchy ?st) tag. child_cards ?st h c))"
    using build_direct_finite[of cbt tag] build_children_finite[of cbt tag] c by simp
  then show ?thesis
    using assms by (auto simp: finite_rolled_def process_tag_def Let_def)
qed

lemma foldl_process_finite:
  "finite_rolled h \<Longrightarrow>
   finite_rolled (foldl (process_tag (build_hierarchy_from_cards new_counter cbt)) h xs)"
  by (induction xs arbitrary: h) (simp_all add: process_tag_finite)

lemma calculate_finite:
  assumes "calculate_hierarchical_counts (build_hierarchy_from_cards new_counter cbt) enum tag = Some info"
  shows "finite (all_unique_cards info)"
proof -
  have "finite_rolled (calculate_hierarchical_counts (build_hierarchy_from_cards new_counter cbt) enum)"
    unfolding calculate_hierarchical_counts_def
    by (rule foldl_process_finite) (simp add: finite_rolled_def)
  then show ?thesis using assms by (auto simp: finite_rolled_def)
qed

lemma node_counts:
  assumes "calculate_hierarchical_counts (build_hierarchy_from_cards new_counter cards_by_tag) enum tag
             = Some info"
  shows "hierarchical_count info = int (card (all_unique_cards info))
       \<and> direct_count info = int (card (direct_cards info))
       \<and> children_count info = hierarchical_count info - direct_count info
       \<and> direct_count info \<le> hierarchical_count info
       \<and> 0 \<le> children_count info"
proof -
  have "card (direct_cards info) \<le> card (all_unique_cards info)"
    using calculate_direct(5)[OF assms] calculate_finite[OF assms] by (rule card_mono[rotated])
  then show ?thesis
    using calculate_direct(2,3,4)[OF assms] by simp
qed

section \<open>C3: the counts of a node\<close>

text \<open>
  Claim C3. For every tag of the result, \<open>hierarchical_count\<close> is the size of the rolled-up
  set, \<open>children_count\<close> is \<open>hierarchical_count - direct_count\<close>, and
  \<open>hierarchical_count \<ge> direct_count\<close> and \<open>children_count \<ge> 0\<close>.
\<close>

theorem hierarchical_counts_consistent:
  assumes "calculate_hierarchical_counts (build_hierarchy_from_cards new_counter cards_by_tag) enum tag
             = Some info"
  shows "hierarchical_count info = int (card (all_unique_cards info))
       \<and> direct_count info = int (card (direct_cards info))
       \<and> children_count info = hierarchical_count info - direct_count info
       \<and> direct_count info \<le> hierarchical_count info
       \<and> 0 \<le> children_count info"
  using assms by (rule node_counts)

theorem hierarchical_counts_consistent_witness:
  "calculate_hierarchical_counts ex_counter ex_enum ''a::b'' =
     Some \<lparr>direct_cards = {2}, all_unique_cards = {1, 2}, direct_count = 1,
           hierarchical_count = 2, children_count = 1,
           children_tags = {''a::b::c''}, parent_tags = [''a'']\<rparr> \<and>
   (2::int) = int (card {1, 2::int}) \<and> (1::int) = int (card {2::int}) \<and>
   (1::int) = 2 - 1 \<and> (1::int) \<le> 2 \<and> (0::int) \<le> 1"
  using hierarchical_counts_consistent[OF ex_calc_b] ex_calc_b by simp

section \<open>C7: the yield level of a tag\<close>

lemma contains_sublist: "contains sub s = sublist sub s"
  by (induction s) (auto simp: sublist_Cons_right)

lemma is_high_yield_tag_marker: "is_high_yield_tag tag = yield_marker tag"
  by (simp add: is_high_yield_tag_def yield_marker_def Let_def contains_sublist)

lemma match_level_leading: "(match_level s = Some d) = leading_level s d"
proof (cases s)
  case Nil
  then show ?thesis by (simp add: match_level_def leading_level_def)
next
  case (Cons c cs)
  show ?thesis
  proof (cases cs)
    case Nil
    then show ?thesis using Cons by (simp add: match_level_def leading_level_def)
  next
    case (Cons x rest)
    have s: "s = c # x # rest" using Cons \<open>s = c # cs\<close> by simp
    show ?thesis
    proof (cases "c \<in> set ''12345'' \<and> (x = CHR ''-'' \<or> x = CHR ''_'')")
      case True
      then consider "c = CHR ''1''" | "c = CHR ''2''" | "c = CHR ''3''" | "c = CHR ''4''" | "c = CHR ''5''"
        by auto
      then show ?thesis
      proof cases
        case 1 then show ?thesis using True s by (auto simp: match_level_def leading_level_def)
      next
        case 2 then show ?thesis using True s by (auto simp: match_level_def leading_level_def)
      next
        case 3 then show ?thesis using True s by (auto simp: match_level_def leading_level_def)
      next
        case 4 then show ?thesis using True s by (auto simp: match_level_def leading_level_def)
      next
        case 5 then show ?thesis using True s by (auto simp: match_level_def leading_level_def)
      qed
    next
      case False
      then have "match_level s = None" using s by (simp add: match_level_def)
      moreover have "\<not> leading_level s d" using False s by (auto simp: leading_level_def)
      ultimately show ?thesis by simp
    qed
  qed
qed

lemma match_level_None: "(match_level s = None) = (\<forall>d. \<not> leading_level s d)"
  using match_level_leading[of s] by (cases "match_level s") auto

lemma match_level_range: "match_level s = Some d \<Longrightarrow> 1 \<le> d \<and> d \<le> 5"
  by (auto simp: match_level_leading leading_level_def)

lemma first_level_none: "\<forall>q \<in> set parts. match_level q = None \<Longrightarrow> first_level parts = 0"
  by (induction parts) auto

lemma first_level_first:
  "\<forall>q \<in> set pre. match_level q = None \<Longrightarrow> match_level p = Some d \<Longrightarrow>
   first_level (pre @ p # post) = d"
  by (induction pre) auto

lemma first_level_range: "0 \<le> first_level parts \<and> first_level parts \<le> 5"
  by (induction parts) (auto split: option.splits dest: match_level_range)

text \<open>
  Claim C7. The yield level is 0 unless the tag is a yield marker. For a marker it is the
  leading level of the whole label; failing that, the leading level of the first
  \<open>'::'\<close>-segment that has one; and 0 when no segment has one. It always lies between 0 and 5.
\<close>

theorem get_yield_level_spec:
  "(\<not> yield_marker tag \<longrightarrow> get_yield_level tag = 0)
   \<and> (yield_marker tag \<and> leading_level tag d \<longrightarrow> get_yield_level tag = d)
   \<and> (yield_marker tag \<and> (\<forall>e. \<not> leading_level tag e)
        \<and> split_sep tag = pre @ p # post
        \<and> (\<forall>q \<in> set pre. \<forall>e. \<not> leading_level q e)
        \<and> leading_level p d \<longrightarrow> get_yield_level tag = d)
   \<and> (yield_marker tag \<and> (\<forall>e. \<not> leading_level tag e)
        \<and> (\<forall>q \<in> set (split_sep tag). \<forall>e. \<not> leading_level q e)
        \<longrightarrow> get_yield_level tag = 0)
   \<and> 0 \<le> get_yield_level tag \<and> get_yield_level tag \<le> 5"
proof (intro conjI impI)
  assume "\<not> yield_marker tag"
  then show "get_yield_level tag = 0"
    by (simp add: get_yield_level_def is_high_yield_tag_marker)
next
  assume "yield_marker tag \<and> leading_level tag d"
  then show "get_yield_level tag = d"
    by (simp add: get_yield_level_def is_high_yield_tag_marker match_level_leading[symmetric])
next
  assume a: "yield_marker tag \<and> (\<forall>e. \<not> leading_level tag e)
        \<and> split_sep tag = pre @ p # post
        \<and> (\<forall>q \<in> set pre. \<forall>e. \<not> leading_level q e)
        \<and> leading_level p d"
  then have "match_level tag = None" "\<forall>q \<in> set pre. match_level q = None" "match_level p = Some d"
    by (simp_all add: match_level_None match_level_leading)
  then show "get_yield_level tag = d"
    using a by (simp add: get_yield_level_def is_high_yield_tag_marker first_level_first)
next
  assume a: "yield_marker tag \<and> (\<forall>e. \<not> leading_level tag e)
        \<and> (\<forall>q \<in> set (split_sep tag). \<forall>e. \<not> leading_level q e)"
  then have "match_level tag = None" "\<forall>q \<in> set (split_sep tag). match_level q = None"
    by (simp_all add: match_level_None)
  then show "get_yield_level tag = 0"
    using a by (simp add: get_yield_level_def is_high_yield_tag_marker first_level_none)
next
  show "0 \<le> get_yield_level tag"
    using first_level_range[of "split_sep tag"]
    by (auto simp: get_yield_level_def split: option.splits dest: match_level_range)
next
  show "get_yield_level tag \<le> 5"
    using first_level_range[of "split_sep tag"]
    by (auto simp: get_yield_level_def split: option.splits dest: match_level_range)
qed

lemma ex_marker: "yield_marker ''A::B::3-HighYield''"
  by (simp add: is_high_yield_tag_marker[symmetric] is_high_yield_tag_def Let_def lower_def lower_char_def)

lemma ex_no_lead: "\<not> leading_level ''A::B::3-HighYield'' e" "\<not> leading_level ''A'' e" "\<not> leading_level ''B'' e"
  by (simp_all add: match_level_leading[symmetric] match_level_def)

lemma ex_lead: "leading_level ''3-HighYield'' 3"
  by (simp add: match_level_leading[symmetric] match_level_def)

theorem get_yield_level_spec_witness:
  "yield_marker ''A::B::3-HighYield'' \<and>
   split_sep ''A::B::3-HighYield'' = [''A'', ''B''] @ ''3-HighYield'' # [] \<and>
   leading_level ''3-HighYield'' 3 \<and>
   get_yield_level ''A::B::3-HighYield'' = 3 \<and>
   \<not> yield_marker ''A::B'' \<and> get_yield_level ''A::B'' = 0"
proof -
  have sp: "split_sep ''A::B::3-HighYield'' = [''A'', ''B''] @ ''3-HighYield'' # []" by simp
  have pre: "\<forall>q \<in> set [''A'', ''B'']. \<forall>e. \<not> leading_level q e" by (simp add: ex_no_lead)
  have l: "get_yield_level ''A::B::3-HighYield'' = 3"
    using get_yield_level_spec[of "''A::B::3-HighYield''" 3 "[''A'', ''B'']" "''3-HighYield''" "[]"]
      ex_marker ex_no_lead(1) sp pre ex_lead by blast
  have n: "\<not> yield_marker ''A::B''"
    by (simp add: is_high_yield_tag_marker[symmetric] is_high_yield_tag_def Let_def lower_def lower_char_def)
  have z: "get_yield_level ''A::B'' = 0"
    using get_yield_level_spec[of "''A::B''"] n by blast
  show ?thesis using ex_marker sp ex_lead l n z by blast
qed

section \<open>C8: averages without division by zero\<close>

lemma truediv_nonzero: "b \<noteq> 0 \<Longrightarrow> \<exists>q. truediv a b = Inr q"
  by (simp add: truediv_def)

lemma guarded_div_total: "\<exists>q. guarded_div a b = Inr q"
  by (simp add: guarded_div_def truediv_def)

lemma guarded_div_zero: "guarded_div a 0 = Inr 0"
  by (simp add: guarded_div_def)

lemma averages_of_total: "\<exists>av. averages_of svc cards hinfo = Inr av"
proof (cases "cards = []")
  case True
  show ?thesis
  proof (cases "has_hierarchy hinfo")
    case h: True
    let ?S = "hierarchy_cards hinfo"
    obtain q1 where q1: "guarded_div (\<Sum>i \<in> ?S. card_val svc factor i) (count_in (card_has svc (\<lambda>c. True)) ?S) = Inr q1"
      using guarded_div_total by blast
    obtain q2 where q2: "guarded_div (\<Sum>i \<in> ?S. card_val svc ivl i) (count_in (card_has svc (\<lambda>c. True)) ?S) = Inr q2"
      using guarded_div_total by blast
    show ?thesis using True h by (simp add: averages_of_def Let_def q1 q2)
  next
    case False
    then show ?thesis using True by (simp add: averages_of_def)
  qed
next
  case False
  then have n: "int (length cards) \<noteq> 0" by simp
  obtain q1 where q1: "truediv (sum_list (map factor cards)) (int (length cards)) = Inr q1"
    using truediv_nonzero[OF n] by blast
  obtain q2 where q2: "truediv (sum_list (map ivl cards)) (int (length cards)) = Inr q2"
    using truediv_nonzero[OF n] by blast
  show ?thesis using False by (simp add: averages_of_def Let_def q1 q2)
qed

lemma review_data_of_total: "\<exists>rd. review_data_of svc cards hinfo = Inr rd"
proof (cases "cards = []")
  case True
  show ?thesis
  proof (cases "has_hierarchy hinfo")
    case h: True
    let ?S = "hierarchy_cards hinfo"
    obtain q where q: "guarded_div (\<Sum>i \<in> ?S. sum_list (map time (revlogs_of svc (Some i))))
        (\<Sum>i \<in> ?S. int (length (revlogs_of svc (Some i)))) = Inr q"
      using guarded_div_total by blast
    show ?thesis using True h by (simp add: review_data_of_def Let_def q)
  next
    case False
    then show ?thesis using True by (simp add: review_data_of_def)
  qed
next
  case False
  let ?L = "concat (map (\<lambda>c. revlogs_of svc (cid c)) cards)"
  obtain q where q: "guarded_div (sum_list (map time ?L)) (int (length ?L)) = Inr q"
    using guarded_div_total by blast
  show ?thesis using False q by (simp add: review_data_of_def Let_def)
qed

lemma tag_record_Inr:
  assumes "tag_record svc tag cards hinfo = Inr r"
  shows "\<exists>av rd. averages_of svc cards hinfo = Inr av \<and> review_data_of svc cards hinfo = Inr rd
    \<and> tag_name r = tag
    \<and> total_cards r = int (length cards)
    \<and> unique_notes r = a_unique_notes av
    \<and> avg_ease r = a_avg_ease av
    \<and> avg_interval r = a_avg_interval av
    \<and> total_lapses r = a_total_lapses av
    \<and> review r = rd
    \<and> unstudied_cards r = unstudied_of svc cards hinfo
    \<and> hierarchical_total_cards r =
         (case hinfo of Some info \<Rightarrow> hierarchical_count info | None \<Rightarrow> int (length cards))
    \<and> children_cards r = (case hinfo of Some info \<Rightarrow> children_count info | None \<Rightarrow> 0)
    \<and> children_tags_out r = (case hinfo of Some info \<Rightarrow> children_tags info | None \<Rightarrow> {})
    \<and> parent_tags_out r = (case hinfo of Some info \<Rightarrow> parent_tags info | None \<Rightarrow> [])
    \<and> unstudied_card_details r = card_details_of cards"
proof -
  obtain av where av: "averages_of svc cards hinfo = Inr av" using averages_of_total by blast
  obtain rd where rd: "review_data_of svc cards hinfo = Inr rd" using review_data_of_total by blast
  show ?thesis
    using assms by (auto simp: tag_record_def Let_def av rd)
qed

lemma tag_record_total: "\<exists>r. tag_record svc tag cards hinfo = Inr r"
proof -
  obtain av where av: "averages_of svc cards hinfo = Inr av" using averages_of_total by blast
  obtain rd where rd: "review_data_of svc cards hinfo = Inr rd" using review_data_of_total by blast
  show ?thesis by (simp add: tag_record_def Let_def av rd)
qed

lemma averages_of_empty:
  assumes "no_cards_found svc cards hinfo" "averages_of svc cards hinfo = Inr av"
  shows "a_avg_ease av = 0 \<and> a_avg_interval av = 0 \<and> a_unique_notes av = 0"
proof (cases "has_hierarchy hinfo")
  case True
  then have n: "\<forall>i \<in> hierarchy_cards hinfo. cards_by_id svc i = None" and c: "cards = []"
    using assms(1) by (auto simp: no_cards_found_def)
  have cnt: "count_in (card_has svc (\<lambda>c. True)) (hierarchy_cards hinfo) = 0"
    using n by (simp add: count_in_def card_has_def)
  have nts: "(\<Union>i \<in> hierarchy_cards hinfo. case cards_by_id svc i of Some c \<Rightarrow> nid_set c | None \<Rightarrow> {}) = {}"
    using n by simp
  show ?thesis
    using assms(2) True c by (auto simp: averages_of_def Let_def cnt nts guarded_div_zero)
next
  case False
  then show ?thesis using assms by (auto simp: averages_of_def no_cards_found_def)
qed

lemma review_data_of_empty:
  assumes "no_review_logs svc cards hinfo" "review_data_of svc cards hinfo = Inr rd"
  shows "total_reviews rd = 0 \<and> avg_time_ms rd = 0"
proof (cases "cards = []")
  case True
  then have n: "\<forall>i \<in> hierarchy_cards hinfo. revlogs_of svc (Some i) = []"
    using assms(1) by (simp add: no_review_logs_def)
  show ?thesis
    using assms(2) True n by (auto simp: review_data_of_def Let_def guarded_div_zero split: if_splits)
next
  case False
  then have n: "\<forall>c \<in> set cards. revlogs_of svc (cid c) = []"
    using assms(1) by (simp add: no_review_logs_def)
  then have e: "concat (map (\<lambda>c. revlogs_of svc (cid c)) cards) = []" by simp
  show ?thesis
    using assms(2) False unfolding review_data_of_def Let_def e
    by (auto simp: guarded_div_zero)
qed

text \<open>
  Claim C8. The record of a tag is always produced: no division of the metrics raises
  \<open>ZeroDivisionError\<close>, for any store, card list and hierarchy entry. When no card is found
  for the node, \<open>avg_ease\<close>, \<open>avg_interval\<close> and \<open>unique_notes\<close> are 0; when its cards have
  no review-log entries, \<open>total_reviews\<close> and \<open>avg_time_ms\<close> are 0.
\<close>

theorem averages_guarded:
  "(\<exists>r. tag_record svc tag cards hinfo = Inr r)
   \<and> (\<forall>r. tag_record svc tag cards hinfo = Inr r \<longrightarrow>
         (no_cards_found svc cards hinfo \<longrightarrow>
            avg_ease r = 0 \<and> avg_interval r = 0 \<and> unique_notes r = 0)
       \<and> (no_review_logs svc cards hinfo \<longrightarrow>
            total_reviews (review r) = 0 \<and> avg_time_ms (review r) = 0))"
proof (intro conjI allI impI)
  show "\<exists>r. tag_record svc tag cards hinfo = Inr r" by (rule tag_record_total)
next
  fix r assume r: "tag_record svc tag cards hinfo = Inr r" and e: "no_cards_found svc cards hinfo"
  from tag_record_Inr[OF r] obtain av where av: "averages_of svc cards hinfo = Inr av"
    "avg_ease r = a_avg_ease av" "avg_interval r = a_avg_interval av" "unique_notes r = a_unique_notes av"
    by blast
  then show "avg_ease r = 0" "avg_interval r = 0" "unique_notes r = 0"
    using averages_of_empty[OF e av(1)] by simp_all
next
  fix r assume r: "tag_record svc tag cards hinfo = Inr r" and e: "no_review_logs svc cards hinfo"
  from tag_record_Inr[OF r] obtain rd where rd: "review_data_of svc cards hinfo = Inr rd" "review r = rd"
    by blast
  then show "total_reviews (review r) = 0" "avg_time_ms (review r) = 0"
    using review_data_of_empty[OF e rd(1)] by simp_all
qed

theorem averages_guarded_witness:
  "no_cards_found ex_service [] None \<and>
   no_review_logs ex_service [mk_card 2 3] None \<and>
   (\<exists>r. tag_record ex_service ''x'' [] None = Inr r \<and>
        avg_ease r = 0 \<and> avg_interval r = 0 \<and> unique_notes r = 0) \<and>
   (\<exists>r. tag_record ex_service ''a::b'' [mk_card 2 3] None = Inr r \<and>
        total_reviews (review r) = 0 \<and> avg_time_ms (review r) = 0)"
proof -
  have h1: "no_cards_found ex_service [] None"
    by (simp add: no_cards_found_def has_hierarchy_def)
  have h2: "no_review_logs ex_service [mk_card 2 3] None"
    by (simp add: no_review_logs_def revlogs_of_def ex_service_def mk_card_def)
  have a: "\<exists>r. tag_record ex_service ''x'' [] None = Inr r \<and>
        avg_ease r = 0 \<and> avg_interval r = 0 \<and> unique_notes r = 0"
    using averages_guarded[of ex_service "''x''" "[]" None] h1 by blast
  have b: "\<exists>r. tag_record ex_service ''a::b'' [mk_card 2 3] None = Inr r \<and>
        total_reviews (review r) = 0 \<and> avg_time_ms (review r) = 0"
    using averages_guarded[of ex_service "''a::b''" "[mk_card 2 3]" None] h2 by blast
  show ?thesis using h1 h2 a b by blast
qed

section \<open>C2: parent-only tags in the output\<close>

lemma export_loop_map:
  "export_loop svc cbt hdata enum =
     Inr (map (\<lambda>t. projr (tag_record svc t (cards_of cbt t) (hdata t))) enum)"
proof (induction enum)
  case Nil
  then show ?case by simp
next
  case (Cons t enum)
  obtain r where r: "tag_record svc t (cards_of cbt t) (hdata t) = Inr r"
    using tag_record_total by blast
  show ?case by (simp add: r Cons)
qed

lemma descendant_nodes:
  assumes "d \<in> descendants (build_hierarchy_from_cards new_counter cbt) tag"
  shows "tag \<in> all_tags (build_hierarchy_from_cards new_counter cbt)"
    and "d \<in> all_tags (build_hierarchy_from_cards new_counter cbt)"
proof -
  let ?st = "build_hierarchy_from_cards new_counter cbt"
  have t: "(tag, d) \<in> (hrel (tag_hierarchy ?st))\<^sup>+" using assms by (simp add: descendants_def)
  then obtain y where "(tag, y) \<in> hrel (tag_hierarchy ?st)" by (auto dest: tranclD)
  then show "tag \<in> all_tags ?st" by (rule hrel_parent_node)
  from t obtain x where "(x, d) \<in> hrel (tag_hierarchy ?st)" by (auto dest: tranclD2)
  then have "d \<in> dict_set (tag_hierarchy ?st) x" by (simp add: hrel_def)
  then show "d \<in> all_tags ?st" by (rule build_child_node)
qed

lemma descendant_cards_rolled_up:
  assumes en: "enumerates enum (all_tags (build_hierarchy_from_cards new_counter cbt))"
    and d: "d \<in> descendants (build_hierarchy_from_cards new_counter cbt) tag"
  shows "dict_set (tag_to_cards (build_hierarchy_from_cards new_counter cbt)) d
     \<subseteq> rolled_up (calculate_hierarchical_counts (build_hierarchy_from_cards new_counter cbt) enum) tag"
proof -
  let ?st = "build_hierarchy_from_cards new_counter cbt"
  have "dict_set (tag_to_cards ?st) d \<subseteq> rolled_up (calculate_hierarchical_counts ?st enum) d"
    using node_equation[OF en descendant_nodes(2)[OF d]] by blast
  moreover have "rolled_up (calculate_hierarchical_counts ?st enum) d
      \<subseteq> rolled_up (calculate_hierarchical_counts ?st enum) tag"
    using rolled_up_descendant_subset[OF en] d by (simp add: descendants_def)
  ultimately show ?thesis by blast
qed

text \<open>
  Claim C2, as the code has it. A tag whose card list is empty or absent and which has a
  descendant with a non-empty direct card-id set yields an output record with
  \<open>total_cards = 0\<close> and \<open>hierarchical_total_cards > 0\<close>, for every store and every order in
  which the two sets of tags are enumerated.
\<close>

theorem parent_only_record:
  assumes en1: "enumerates enum1 (all_tags (build_hierarchy_from_cards new_counter cards_by_tag))"
    and en2: "enumerates enum2 (export_tags cards_by_tag
        (calculate_hierarchical_counts (build_hierarchy_from_cards new_counter cards_by_tag) enum1))"
    and zero: "cards_of cards_by_tag tag = []"
    and d: "d \<in> descendants (build_hierarchy_from_cards new_counter cards_by_tag) tag"
    and dne: "dict_set (tag_to_cards (build_hierarchy_from_cards new_counter cards_by_tag)) d \<noteq> {}"
  shows "\<exists>rs. export_records svc cards_by_tag enum1 enum2 = Inr rs \<and>
           (\<exists>r \<in> set rs. tag_name r = tag \<and> total_cards r = 0 \<and> hierarchical_total_cards r > 0)"
proof -
  let ?st = "build_hierarchy_from_cards new_counter cards_by_tag"
  let ?R = "calculate_hierarchical_counts ?st enum1"
  have tag: "tag \<in> all_tags ?st" using descendant_nodes(1)[OF d] .
  then obtain info where info: "?R tag = Some info"
    using calculate_dom[OF en1] by auto
  have "tag \<in> set enum2"
    using en2 info by (auto simp: enumerates_def export_tags_def)
  obtain r where r: "tag_record svc tag (cards_of cards_by_tag tag) (?R tag) = Inr r"
    using tag_record_total by blast
  have rs: "export_records svc cards_by_tag enum1 enum2 =
      Inr (map (\<lambda>t. projr (tag_record svc t (cards_of cards_by_tag t) (?R t))) enum2)"
    by (simp add: export_records_def Let_def create_export_data_fast_def export_loop_map)
  have mem: "r \<in> set (map (\<lambda>t. projr (tag_record svc t (cards_of cards_by_tag t) (?R t))) enum2)"
    using \<open>tag \<in> set enum2\<close> r by force
  have "all_unique_cards info \<noteq> {}"
    using descendant_cards_rolled_up[OF en1 d] dne info by (auto simp: rolled_up_def)
  then have "card (all_unique_cards info) > 0"
    using calculate_finite[OF info] by (simp add: card_gt_0_iff)
  then have "hierarchical_count info > 0" using node_counts[OF info] by simp
  then have "tag_name r = tag \<and> total_cards r = 0 \<and> hierarchical_total_cards r > 0"
    using tag_record_Inr[OF r] zero info by auto
  then show ?thesis using rs mem by blast
qed

lemma child_descendant: "c \<in> dict_set (tag_hierarchy st) t \<Longrightarrow> c \<in> descendants st t"
  by (auto simp: descendants_def hrel_def)

lemma ex_idless_edges: "edges_of ''a::b'' = {(''a'', ''a::b'')}"
  by (auto simp: edges_of_def atLeast0_lessThan_Suc)

lemma ex_idless_hrel:
  "hrel (tag_hierarchy (build_hierarchy_from_cards new_counter ex_idless)) = {(''a'', ''a::b'')}"
  by (simp add: build_hrel ex_idless_def ex_idless_edges)

lemma ex_idless_children:
  "dict_set (tag_hierarchy (build_hierarchy_from_cards new_counter ex_idless)) t =
     (if t = ''a'' then {''a::b''} else {})"
  by (auto simp: children_hrel ex_idless_hrel)

lemma ex_idless_direct:
  "dict_set (tag_to_cards (build_hierarchy_from_cards new_counter ex_idless)) t = {}"
  by (simp add: build_tag_to_cards ex_idless_def dict_set_def card_id_set_simps mk_card_def)

lemma ex_idless_sorted: "sorted_tags [''a::b'', ''a''] = [''a::b'', ''a'']"
  by (simp add: sorted_tags_def)

lemma ex_idless_calc:
  "calculate_hierarchical_counts (build_hierarchy_from_cards new_counter ex_idless) [''a::b'', ''a'']
     = [''a::b'' \<mapsto> \<lparr>direct_cards = {}, all_unique_cards = {}, direct_count = 0,
           hierarchical_count = 0, children_count = 0, children_tags = {}, parent_tags = [''a'']\<rparr>,
        ''a'' \<mapsto> \<lparr>direct_cards = {}, all_unique_cards = {}, direct_count = 0,
           hierarchical_count = 0, children_count = 0, children_tags = {''a::b''}, parent_tags = []\<rparr>]"
  by (simp add: calculate_hierarchical_counts_def ex_idless_sorted process_tag_def ex_idless_direct
      ex_idless_children child_cards_def ex_parents Let_def)

lemma ex_idless_cards:
  "cards_of ex_idless ''a'' = []" "cards_of ex_idless ''a::b'' = [mk_card 0 0]"
  by (simp_all add: cards_of_def ex_idless_def)

text \<open>
  The tag \<open>a\<close> has no direct cards and its descendant \<open>a::b\<close> has one card, counted in
  \<open>total_cards\<close> of \<open>a::b\<close>. The card's identifier is 0, so it is in no card-id set and the
  record of \<open>a\<close> has \<open>hierarchical_total_cards = 0\<close>.
\<close>

theorem parent_only_record_counterexample:
  "cards_of ex_idless ''a'' = [] \<and>
   ''a::b'' \<in> descendants (build_hierarchy_from_cards new_counter ex_idless) ''a'' \<and>
   length (cards_of ex_idless ''a::b'') = 1 \<and>
   map_sum id (map (\<lambda>r. (tag_name r, total_cards r, hierarchical_total_cards r)))
     (export_records ex_service ex_idless [''a::b'', ''a''] [''a::b'', ''a''])
     = Inr [(''a::b'', 1, 0), (''a'', 0, 0)]"
proof -
  let ?R = "calculate_hierarchical_counts (build_hierarchy_from_cards new_counter ex_idless) [''a::b'', ''a'']"
  have d: "''a::b'' \<in> descendants (build_hierarchy_from_cards new_counter ex_idless) ''a''"
    by (rule child_descendant) (simp add: ex_idless_children)
  obtain r1 where r1: "tag_record ex_service ''a::b'' (cards_of ex_idless ''a::b'') (?R ''a::b'') = Inr r1"
    using tag_record_total by blast
  obtain r2 where r2: "tag_record ex_service ''a'' (cards_of ex_idless ''a'') (?R ''a'') = Inr r2"
    using tag_record_total by blast
  have f1: "tag_name r1 = ''a::b''" "total_cards r1 = 1" "hierarchical_total_cards r1 = 0"
    using tag_record_Inr[OF r1] by (auto simp: ex_idless_calc ex_idless_cards)
  have f2: "tag_name r2 = ''a''" "total_cards r2 = 0" "hierarchical_total_cards r2 = 0"
    using tag_record_Inr[OF r2] by (auto simp: ex_idless_calc ex_idless_cards)
  have "export_records ex_service ex_idless [''a::b'', ''a''] [''a::b'', ''a''] = Inr [r1, r2]"
    by (simp add: export_records_def Let_def create_export_data_fast_def export_loop_map r1 r2)
  then show ?thesis using d f1 f2 by (simp add: ex_idless_cards)
qed

lemma ex_calc_dom: "dom (calculate_hierarchical_counts ex_counter ex_enum) = all_tags ex_counter"
  by (rule calculate_dom[OF ex_enumerates])

lemma ex_export_enumerates:
  "enumerates ex_enum (export_tags ex_cards_by_tag (calculate_hierarchical_counts ex_counter ex_enum))"
proof -
  have "export_tags ex_cards_by_tag (calculate_hierarchical_counts ex_counter ex_enum)
      = set (map fst ex_cards_by_tag) \<union> all_tags ex_counter"
    by (simp only: export_tags_def ex_calc_dom)
  also have "\<dots> = {''a'', ''a::b'', ''a::b::c'', ''a::d''}"
    unfolding ex_all_tags by (auto simp: ex_cards_by_tag_def)
  finally show ?thesis by (auto simp: enumerates_def ex_enum_def)
qed

theorem parent_only_record_witness:
  "enumerates ex_enum (all_tags ex_counter) \<and>
   enumerates ex_enum (export_tags ex_cards_by_tag (calculate_hierarchical_counts ex_counter ex_enum)) \<and>
   cards_of ex_cards_by_tag ''a'' = [] \<and>
   ''a::b'' \<in> descendants ex_counter ''a'' \<and>
   dict_set (tag_to_cards ex_counter) ''a::b'' \<noteq> {} \<and>
   (\<exists>rs. export_records ex_service ex_cards_by_tag ex_enum ex_enum = Inr rs \<and>
      (\<exists>r \<in> set rs. tag_name r = ''a'' \<and> total_cards r = 0 \<and> hierarchical_total_cards r > 0))"
proof -
  have z: "cards_of ex_cards_by_tag ''a'' = []"
    by (simp add: cards_of_def ex_cards_by_tag_def)
  have d: "''a::b'' \<in> descendants ex_counter ''a''"
    by (rule child_descendant) (simp add: ex_children)
  have n: "dict_set (tag_to_cards ex_counter) ''a::b'' \<noteq> {}"
    by (simp add: ex_direct)
  show ?thesis
    using parent_only_record[OF ex_enumerates ex_export_enumerates z d n, of ex_service]
      ex_enumerates ex_export_enumerates z d n by blast
qed

section \<open>C10: card records without an identifier\<close>

lemma add_card_falsy: "\<not> truthy (cid c) \<Longrightarrow> add_card tag acc c = acc"
  by (cases acc) (auto simp: add_card_def truthy_def split: option.splits)

lemma foldl_add_card_filter:
  "foldl (add_card tag) acc cards = foldl (add_card tag) acc (filter (\<lambda>c. truthy (cid c)) cards)"
  by (induction cards arbitrary: acc) (simp_all add: add_card_falsy)

lemma add_tag_filter: "add_tag st (t, cs) = add_tag st (t, filter (\<lambda>c. truthy (cid c)) cs)"
  using foldl_add_card_filter[of t "({}, st)" cs] by (simp add: add_tag_def)

lemma foldl_add_tag_filter: "foldl add_tag st cbt = foldl add_tag st (drop_falsy cbt)"
proof (induction cbt arbitrary: st)
  case Nil
  then show ?case by (simp add: drop_falsy_def)
next
  case (Cons x cbt)
  obtain t cs where x: "x = (t, cs)" by (cases x)
  have "foldl add_tag st (x # cbt) = foldl add_tag (add_tag st (t, filter (\<lambda>c. truthy (cid c)) cs)) cbt"
    using add_tag_filter[of st t cs] by (simp add: x)
  also have "\<dots> = foldl add_tag (add_tag st (t, filter (\<lambda>c. truthy (cid c)) cs)) (drop_falsy cbt)"
    by (rule Cons)
  finally show ?case by (simp add: x drop_falsy_def)
qed

lemma build_drop_falsy:
  "build_hierarchy_from_cards st cbt = build_hierarchy_from_cards st (drop_falsy cbt)"
  using foldl_add_tag_filter[of st cbt] by (simp add: build_hierarchy_from_cards_def)

lemma card_id_set_truthy: "i \<in> card_id_set cs \<Longrightarrow> \<exists>c \<in> set cs. cid c = Some i \<and> truthy (cid c)"
  by (auto simp: card_id_set_def truthy_def)

lemma card_id_set_filter: "card_id_set cs = card_id_set (filter (\<lambda>c. truthy (cid c)) cs)"
  by (auto simp: card_id_set_def truthy_def)

lemma card_id_set_card: "card (card_id_set cs) \<le> length (filter (\<lambda>c. truthy (cid c)) cs)"
proof -
  have "card_id_set cs \<subseteq> (\<lambda>c. the (cid c)) ` set (filter (\<lambda>c. truthy (cid c)) cs)"
    by (force simp: card_id_set_def truthy_def)
  then have "card (card_id_set cs) \<le> card ((\<lambda>c. the (cid c)) ` set (filter (\<lambda>c. truthy (cid c)) cs))"
    by (intro card_mono) simp_all
  also have "\<dots> \<le> card (set (filter (\<lambda>c. truthy (cid c)) cs))"
    by (rule card_image_le) simp
  also have "\<dots> \<le> length (filter (\<lambda>c. truthy (cid c)) cs)"
    by (rule card_length)
  finally show ?thesis .
qed

lemma card_id_set_card_less:
  assumes "c \<in> set cs" "\<not> truthy (cid c)"
  shows "card (card_id_set cs) < length cs"
proof -
  have "length (filter (\<lambda>c. truthy (cid c)) cs) < length cs"
    using assms by (rule length_filter_less)
  then show ?thesis using card_id_set_card[of cs] by simp
qed

lemma build_entry:
  assumes "distinct (map fst cbt)" "(tag, cards) \<in> set cbt"
  shows "tag_to_cards (build_hierarchy_from_cards new_counter cbt) tag = Some (card_id_set cards)"
    and "cards_of cbt tag = cards"
proof -
  have "distinct (map fst (rev (map (\<lambda>(t, cs). (t, card_id_set cs)) cbt)))"
    using assms(1) by (simp add: rev_map[symmetric] distinct_rev comp_def case_prod_unfold)
  moreover have "(tag, card_id_set cards) \<in> set (rev (map (\<lambda>(t, cs). (t, card_id_set cs)) cbt))"
    using assms(2) by force
  ultimately show "tag_to_cards (build_hierarchy_from_cards new_counter cbt) tag = Some (card_id_set cards)"
    unfolding build_tag_to_cards by (rule map_of_is_SomeI)
  show "cards_of cbt tag = cards"
    using map_of_is_SomeI[OF assms] by (simp add: cards_of_def)
qed

lemma build_direct_subset_unique:
  "dict_set (tag_to_cards (build_hierarchy_from_cards new_counter cbt)) t
     \<subseteq> unique_card_ids (build_hierarchy_from_cards new_counter cbt)"
proof (cases "tag_to_cards (build_hierarchy_from_cards new_counter cbt) t")
  case None
  then show ?thesis by (simp add: dict_set_def)
next
  case (Some s)
  then have "(t, s) \<in> set (rev (map (\<lambda>(t, cs). (t, card_id_set cs)) cbt))"
    unfolding build_tag_to_cards by (rule map_of_SomeD)
  then obtain cs where "(t, cs) \<in> set cbt" "s = card_id_set cs" by auto
  then show ?thesis using Some by (force simp: dict_set_def build_unique)
qed

lemma process_tag_within:
  assumes "rolled_within (unique_card_ids (build_hierarchy_from_cards new_counter cbt)) h"
  shows "rolled_within (unique_card_ids (build_hierarchy_from_cards new_counter cbt))
           (process_tag (build_hierarchy_from_cards new_counter cbt) h tag)"
proof -
  let ?st = "build_hierarchy_from_cards new_counter cbt"
  have c: "child_cards ?st h c \<subseteq> unique_card_ids ?st" for c
    using assms build_direct_subset_unique[of cbt c]
    by (auto simp: child_cards_def rolled_within_def split: option.splits)
  have "dict_set (tag_to_cards ?st) tag \<union> (\<Union>c \<in> dict_set (tag_hierarchy ?st) tag. child_cards ?st h c)
      \<subseteq> unique_card_ids ?st"
    using build_direct_subset_unique[of cbt tag] c by blast
  then show ?thesis
    using assms by (auto simp: rolled_within_def process_tag_def Let_def)
qed

lemma foldl_process_within:
  "rolled_within (unique_card_ids (build_hierarchy_from_cards new_counter cbt)) h \<Longrightarrow>
   rolled_within (unique_card_ids (build_hierarchy_from_cards new_counter cbt))
     (foldl (process_tag (build_hierarchy_from_cards new_counter cbt)) h xs)"
  by (induction xs arbitrary: h) (simp_all add: process_tag_within)

lemma rolled_up_subset_unique:
  "rolled_up (calculate_hierarchical_counts (build_hierarchy_from_cards new_counter cbt) enum) t
     \<subseteq> unique_card_ids (build_hierarchy_from_cards new_counter cbt)"
proof -
  have "rolled_within (unique_card_ids (build_hierarchy_from_cards new_counter cbt))
      (calculate_hierarchical_counts (build_hierarchy_from_cards new_counter cbt) enum)"
    unfolding calculate_hierarchical_counts_def
    by (rule foldl_process_within) (simp add: rolled_within_def)
  then show ?thesis by (auto simp: rolled_within_def rolled_up_def split: option.splits)
qed

lemma unique_truthy:
  assumes "i \<in> unique_card_ids (build_hierarchy_from_cards new_counter cbt)"
  shows "i \<noteq> 0"
  using assms by (auto simp: build_unique card_id_set_def)

text \<open>
  Claim C10. A card record whose \<open>'id'\<close> is absent, \<open>None\<close> or 0 leaves the counter
  unchanged: the counter built from the input equals the one built from the input without
  such records, so no card-id set, rolled-up set or count depends on it. Its identifier is
  in no direct set, not in \<open>unique_card_ids\<close> and in no rolled-up set. The record is still in
  the tag's card list and counted in \<open>total_cards\<close>, so \<open>direct_count\<close> of the tag is
  strictly smaller than its \<open>total_cards\<close>.
\<close>

theorem falsy_ids_excluded:
  assumes "distinct (map fst cards_by_tag)"
    and "(tag, cards) \<in> set cards_by_tag"
    and "c \<in> set cards"
    and "\<not> truthy (cid c)"
    and "calculate_hierarchical_counts (build_hierarchy_from_cards new_counter cards_by_tag) enum tag
           = Some info"
    and "tag_record svc tag (cards_of cards_by_tag tag) (Some info) = Inr r"
  shows "build_hierarchy_from_cards new_counter cards_by_tag
           = build_hierarchy_from_cards new_counter (drop_falsy cards_by_tag)
       \<and> direct_cards info = card_id_set cards
       \<and> (\<forall>i. cid c = Some i \<longrightarrow>
            i \<notin> direct_cards info
          \<and> i \<notin> unique_card_ids (build_hierarchy_from_cards new_counter cards_by_tag)
          \<and> (\<forall>t. i \<notin> rolled_up (calculate_hierarchical_counts
                      (build_hierarchy_from_cards new_counter cards_by_tag) enum) t))
       \<and> total_cards r = int (length cards)
       \<and> direct_count info < total_cards r"
proof -
  let ?st = "build_hierarchy_from_cards new_counter cards_by_tag"
  have dc: "direct_cards info = card_id_set cards"
    using calculate_direct(1)[OF assms(5)] build_entry(1)[OF assms(1,2)] by (simp add: dict_set_def)
  have tc: "total_cards r = int (length cards)"
    using tag_record_Inr[OF assms(6)] build_entry(2)[OF assms(1,2)] by auto
  have lt: "direct_count info < total_cards r"
    using calculate_direct(2)[OF assms(5)] card_id_set_card_less[OF assms(3,4)] dc tc by simp
  have ex: "i \<notin> direct_cards info \<and> i \<notin> unique_card_ids ?st
      \<and> (\<forall>t. i \<notin> rolled_up (calculate_hierarchical_counts ?st enum) t)" if "cid c = Some i" for i
  proof -
    have z: "i = 0" using that assms(4) by (simp add: truthy_def)
    have u: "i \<notin> unique_card_ids ?st" using unique_truthy[of i cards_by_tag] z by blast
    moreover have "i \<notin> direct_cards info"
      using dc z by (auto simp: card_id_set_def)
    moreover have "\<forall>t. i \<notin> rolled_up (calculate_hierarchical_counts ?st enum) t"
      using u rolled_up_subset_unique[of cards_by_tag enum] by blast
    ultimately show ?thesis by blast
  qed
  show ?thesis using build_drop_falsy[of new_counter cards_by_tag] dc tc lt ex by blast
qed

lemma ex_mixed_children:
  "dict_set (tag_hierarchy (build_hierarchy_from_cards new_counter ex_mixed)) t = {}"
  by (simp add: children_hrel build_hrel ex_mixed_def edges_of_no_sep)

lemma ex_mixed_direct:
  "dict_set (tag_to_cards (build_hierarchy_from_cards new_counter ex_mixed)) ''t'' = {7}"
  by (simp add: build_tag_to_cards ex_mixed_def dict_set_def card_id_set_simps mk_card_def)

lemma ex_mixed_calc:
  "calculate_hierarchical_counts (build_hierarchy_from_cards new_counter ex_mixed) [''t''] ''t''
     = Some \<lparr>direct_cards = {7}, all_unique_cards = {7}, direct_count = 1,
           hierarchical_count = 1, children_count = 0, children_tags = {}, parent_tags = []\<rparr>"
  by (simp add: calculate_hierarchical_counts_def sorted_tags_def process_tag_def ex_mixed_direct
      ex_mixed_children Let_def get_parent_tags_fast_def)

theorem falsy_ids_excluded_witness:
  "distinct (map fst ex_mixed) \<and>
   (''t'', [mk_card 0 0, mk_card 7 0]) \<in> set ex_mixed \<and>
   mk_card 0 0 \<in> set [mk_card 0 0, mk_card 7 0] \<and>
   \<not> truthy (cid (mk_card 0 0)) \<and>
   calculate_hierarchical_counts (build_hierarchy_from_cards new_counter ex_mixed) [''t''] ''t''
     = Some \<lparr>direct_cards = {7}, all_unique_cards = {7}, direct_count = 1,
           hierarchical_count = 1, children_count = 0, children_tags = {}, parent_tags = []\<rparr> \<and>
   0 \<notin> unique_card_ids (build_hierarchy_from_cards new_counter ex_mixed) \<and>
   (\<exists>r. tag_record ex_service ''t'' (cards_of ex_mixed ''t'')
          (Some \<lparr>direct_cards = {7}, all_unique_cards = {7}, direct_count = 1,
           hierarchical_count = 1, children_count = 0, children_tags = {}, parent_tags = []\<rparr>) = Inr r \<and>
        total_cards r = 2 \<and> 1 < total_cards r)"
proof -
  have h1: "distinct (map fst ex_mixed)" by (simp add: ex_mixed_def)
  have h2: "(''t'', [mk_card 0 0, mk_card 7 0]) \<in> set ex_mixed" by (simp add: ex_mixed_def)
  have h3: "mk_card 0 0 \<in> set [mk_card 0 0, mk_card 7 0]" by simp
  have h4: "\<not> truthy (cid (mk_card 0 0))" by (simp add: truthy_def mk_card_def)
  obtain r where r: "tag_record ex_service ''t'' (cards_of ex_mixed ''t'')
          (Some \<lparr>direct_cards = {7}, all_unique_cards = {7}, direct_count = 1,
           hierarchical_count = 1, children_count = 0, children_tags = {}, parent_tags = []\<rparr>) = Inr r"
    using tag_record_total by blast
  note t = falsy_ids_excluded[OF h1 h2 h3 h4 ex_mixed_calc r]
  have c: "cid (mk_card 0 0) = Some 0" by (simp add: mk_card_def)
  have u: "0 \<notin> unique_card_ids (build_hierarchy_from_cards new_counter ex_mixed)"
    using t c by blast
  have n: "total_cards r = 2 \<and> 1 < total_cards r" using t by simp
  show ?thesis using h1 h2 h3 h4 ex_mixed_calc u r n by blast
qed

section \<open>C4: the order of the input and of the sets\<close>

lemma descendants_child:
  assumes "c \<in> dict_set (tag_hierarchy st) t"
  shows "reachable_cards st c \<subseteq> reachable_cards st t"
proof -
  have c: "c \<in> descendants st t" using assms by (rule child_descendant)
  have "descendants st c \<subseteq> descendants st t"
    using c by (auto simp: descendants_def intro: trancl_trans)
  then show ?thesis using c by (auto simp: reachable_cards_def)
qed

lemma process_tag_reachable:
  assumes "rolled_reachable st h"
  shows "rolled_reachable st (process_tag st h tag)"
proof -
  have c: "child_cards st h c \<subseteq> reachable_cards st c" for c
    using assms by (auto simp: child_cards_def rolled_reachable_def reachable_cards_def split: option.splits)
  have "(\<Union>c \<in> dict_set (tag_hierarchy st) tag. child_cards st h c) \<subseteq> reachable_cards st tag"
    using c descendants_child[of _ st tag] by blast
  then have "dict_set (tag_to_cards st) tag \<union> (\<Union>c \<in> dict_set (tag_hierarchy st) tag. child_cards st h c)
      \<subseteq> reachable_cards st tag"
    by (auto simp: reachable_cards_def)
  then show ?thesis
    using assms by (auto simp: rolled_reachable_def process_tag_def Let_def)
qed

lemma foldl_process_reachable:
  "rolled_reachable st h \<Longrightarrow> rolled_reachable st (foldl (process_tag st) h xs)"
  by (induction xs arbitrary: h) (simp_all add: process_tag_reachable)

lemma rolled_up_subset_reachable:
  "rolled_up (calculate_hierarchical_counts st enum) t \<subseteq> reachable_cards st t"
proof -
  have "rolled_reachable st (calculate_hierarchical_counts st enum)"
    unfolding calculate_hierarchical_counts_def
    by (rule foldl_process_reachable) (simp add: rolled_reachable_def)
  then show ?thesis by (auto simp: rolled_reachable_def rolled_up_def split: option.splits)
qed

lemma rolled_up_closed_form:
  assumes en: "enumerates enum (all_tags (build_hierarchy_from_cards new_counter cbt))"
    and t: "t \<in> all_tags (build_hierarchy_from_cards new_counter cbt)"
  shows "rolled_up (calculate_hierarchical_counts (build_hierarchy_from_cards new_counter cbt) enum) t
           = reachable_cards (build_hierarchy_from_cards new_counter cbt) t"
proof
  show "rolled_up (calculate_hierarchical_counts (build_hierarchy_from_cards new_counter cbt) enum) t
      \<subseteq> reachable_cards (build_hierarchy_from_cards new_counter cbt) t"
    by (rule rolled_up_subset_reachable)
  have "dict_set (tag_to_cards (build_hierarchy_from_cards new_counter cbt)) t
      \<subseteq> rolled_up (calculate_hierarchical_counts (build_hierarchy_from_cards new_counter cbt) enum) t"
    using node_equation[OF en t] by blast
  then show "reachable_cards (build_hierarchy_from_cards new_counter cbt) t
      \<subseteq> rolled_up (calculate_hierarchical_counts (build_hierarchy_from_cards new_counter cbt) enum) t"
    using descendant_cards_rolled_up[OF en] by (auto simp: reachable_cards_def)
qed

lemma calculate_closed_form:
  assumes en: "enumerates enum (all_tags (build_hierarchy_from_cards new_counter cbt))"
  shows "calculate_hierarchical_counts (build_hierarchy_from_cards new_counter cbt) enum t
     = (if t \<in> all_tags (build_hierarchy_from_cards new_counter cbt)
        then Some (node_info (build_hierarchy_from_cards new_counter cbt) t) else None)"
proof (cases "t \<in> all_tags (build_hierarchy_from_cards new_counter cbt)")
  case True
  let ?st = "build_hierarchy_from_cards new_counter cbt"
  obtain info where info: "calculate_hierarchical_counts ?st enum t = Some info"
    using True calculate_dom[OF en] by auto
  have a: "all_unique_cards info = reachable_cards ?st t"
    using rolled_up_closed_form[OF en True] info by (simp add: rolled_up_def)
  have "info = node_info ?st t"
    using calculate_direct[OF info] a by (cases info) (simp add: node_info_def)
  then show ?thesis using True info by simp
next
  case False
  then show ?thesis using calculate_dom[OF en] by auto
qed

lemma map_eq_from_hrel:
  assumes "nonempty_vals h1" "nonempty_vals h2" "hrel h1 = hrel h2"
  shows "h1 = h2"
proof
  fix p
  have d: "dict_set h1 p = dict_set h2 p" using assms(3) by (simp add: children_hrel)
  show "h1 p = h2 p"
  proof (cases "h1 p")
    case None
    then have "dict_set h2 p = {}" using d by (simp add: dict_set_def)
    then show ?thesis using None assms(2) by (cases "h2 p") (auto simp: dict_set_def nonempty_vals_def)
  next
    case (Some s)
    then have s: "s \<noteq> {}" "dict_set h2 p = s" using d assms(1) by (auto simp: dict_set_def nonempty_vals_def)
    then show ?thesis using Some by (cases "h2 p") (auto simp: dict_set_def)
  qed
qed

lemma card_id_set_cong: "set cs = set cs' \<Longrightarrow> card_id_set cs = card_id_set cs'"
  by (simp add: card_id_set_def)

lemma build_tag_to_cards_lookup:
  assumes "distinct (map fst cbt)"
  shows "tag_to_cards (build_hierarchy_from_cards new_counter cbt) t =
     (if t \<in> fst ` set cbt then Some (card_id_set (cards_of cbt t)) else None)"
proof (cases "t \<in> fst ` set cbt")
  case True
  then obtain cs where cs: "(t, cs) \<in> set cbt" by auto
  show ?thesis using build_entry[OF assms cs] True by simp
next
  case False
  then have "t \<notin> dom (tag_to_cards (build_hierarchy_from_cards new_counter cbt))"
    by (simp add: build_dom_tag_to_cards)
  then show ?thesis using False by auto
qed

lemma same_mapping_counter:
  assumes "same_mapping cbt1 cbt2"
  shows "tag_to_cards (build_hierarchy_from_cards new_counter cbt1)
           = tag_to_cards (build_hierarchy_from_cards new_counter cbt2)"
    and "tag_hierarchy (build_hierarchy_from_cards new_counter cbt1)
           = tag_hierarchy (build_hierarchy_from_cards new_counter cbt2)"
proof -
  have d: "distinct (map fst cbt1)" "distinct (map fst cbt2)" and k: "fst ` set cbt1 = fst ` set cbt2"
    and m: "\<And>t. mset (cards_of cbt1 t) = mset (cards_of cbt2 t)"
    using assms by (auto simp: same_mapping_def)
  have s: "set (cards_of cbt1 t) = set (cards_of cbt2 t)" for t
    using m[of t] by (rule mset_eq_setD)
  show "tag_to_cards (build_hierarchy_from_cards new_counter cbt1)
           = tag_to_cards (build_hierarchy_from_cards new_counter cbt2)"
    by (rule ext) (simp add: build_tag_to_cards_lookup d k card_id_set_cong[OF s])
  show "tag_hierarchy (build_hierarchy_from_cards new_counter cbt1)
           = tag_hierarchy (build_hierarchy_from_cards new_counter cbt2)"
    by (rule map_eq_from_hrel) (simp_all add: build_nonempty build_hrel k)
qed

lemma node_info_cong:
  assumes "tag_to_cards st1 = tag_to_cards st2" "tag_hierarchy st1 = tag_hierarchy st2"
  shows "node_info st1 t = node_info st2 t" and "all_tags st1 = all_tags st2"
  using assms by (simp_all add: node_info_def reachable_cards_def descendants_def all_tags_def)

lemma same_mapping_calculate:
  assumes sm: "same_mapping cbt1 cbt2"
    and en1: "enumerates enum1 (all_tags (build_hierarchy_from_cards new_counter cbt1))"
    and en2: "enumerates enum2 (all_tags (build_hierarchy_from_cards new_counter cbt2))"
  shows "calculate_hierarchical_counts (build_hierarchy_from_cards new_counter cbt1) enum1
       = calculate_hierarchical_counts (build_hierarchy_from_cards new_counter cbt2) enum2"
proof
  fix t
  show "calculate_hierarchical_counts (build_hierarchy_from_cards new_counter cbt1) enum1 t
       = calculate_hierarchical_counts (build_hierarchy_from_cards new_counter cbt2) enum2 t"
    unfolding calculate_closed_form[OF en1] calculate_closed_form[OF en2]
    using node_info_cong[OF same_mapping_counter[OF sm]] by simp
qed

lemma perm_length: "mset xs = mset ys \<Longrightarrow> length xs = length ys"
  by (rule mset_eq_length)

lemma perm_filter: "mset xs = mset ys \<Longrightarrow> mset (filter p xs) = mset (filter p ys)"
  by simp

lemma perm_count_if: "mset xs = mset ys \<Longrightarrow> count_if p xs = count_if p ys"
  using mset_eq_length[OF perm_filter[of xs ys p]] by (simp add: count_if_def)

lemma perm_sum_list:
  fixes f :: "'a \<Rightarrow> 'b::comm_monoid_add"
  shows "mset xs = mset ys \<Longrightarrow> sum_list (map f xs) = sum_list (map f ys)"
proof -
  assume "mset xs = mset ys"
  then have "mset (map f xs) = mset (map f ys)" by simp
  then have "sum_mset (mset (map f xs)) = sum_mset (mset (map f ys))" by simp
  then show ?thesis by (simp only: sum_mset_sum_list)
qed

lemma perm_set: "mset xs = mset ys \<Longrightarrow> set xs = set ys"
  by (rule mset_eq_setD)

lemma perm_concat: "mset xs = mset ys \<Longrightarrow> mset (concat (map f xs)) = mset (concat (map f ys))"
  using perm_sum_list[of xs ys "\<lambda>x. mset (f x)"] by (simp add: mset_concat comp_def)

lemma perm_Nil: "mset xs = mset ys \<Longrightarrow> (xs = []) = (ys = [])"
  by (metis mset_zero_iff)

lemma yield_stats_perm:
  assumes "mset cs = mset cs'"
  shows "yield_stats_of svc tag cs h level = yield_stats_of svc tag cs' h level"
proof -
  have f: "mset (get_cards_by_yield_level cs level) = mset (get_cards_by_yield_level cs' level)"
    unfolding get_cards_by_yield_level_def using assms by (rule perm_filter)
  show ?thesis
    unfolding yield_stats_of_def Let_def
    by (simp only: perm_length[OF assms] perm_count_if[OF assms] perm_length[OF f] perm_count_if[OF f])
qed

lemma high_yield_perm:
  assumes "mset cs = mset cs'"
  shows "high_yield_of svc tag cs h = high_yield_of svc tag cs' h"
proof -
  have "yield_stats_of svc tag cs h = yield_stats_of svc tag cs' h"
    by (rule ext) (rule yield_stats_perm[OF assms])
  then show ?thesis
    unfolding high_yield_of_def Let_def by (simp only: perm_length[OF assms])
qed

lemma state_counts_perm:
  assumes "mset cs = mset cs'"
  shows "state_counts_of svc cs h = state_counts_of svc cs' h"
  unfolding state_counts_of_def
  by (simp only: perm_length[OF assms] perm_count_if[OF assms])

lemma averages_perm:
  assumes "mset cs = mset cs'"
  shows "averages_of svc cs h = averages_of svc cs' h"
  unfolding averages_of_def Let_def
  by (simp only: perm_length[OF assms] perm_sum_list[OF assms] perm_set[OF assms])

lemma review_perm:
  assumes "mset cs = mset cs'"
  shows "review_data_of svc cs h = review_data_of svc cs' h"
proof -
  let ?L = "concat (map (\<lambda>c. revlogs_of svc (cid c)) cs)"
  let ?L' = "concat (map (\<lambda>c. revlogs_of svc (cid c)) cs')"
  have m: "mset ?L = mset ?L'" using assms by (rule perm_concat)
  show ?thesis
    unfolding review_data_of_def Let_def
    by (simp only: perm_length[OF assms] perm_length[OF m] perm_sum_list[OF m] perm_count_if[OF m])
qed

lemma unstudied_perm:
  assumes "mset cs = mset cs'"
  shows "unstudied_of svc cs h = unstudied_of svc cs' h"
  unfolding unstudied_of_def by (simp only: perm_count_if[OF assms])

lemma card_details_perm:
  assumes "mset cs = mset cs'"
  shows "mset (card_details_of cs) = mset (card_details_of cs')"
  using assms perm_length[OF assms] by (simp add: card_details_of_def)

lemma tag_record_perm:
  assumes m: "mset cs = mset cs'"
    and r1: "tag_record svc tag cs h = Inr r1"
    and r2: "tag_record svc tag cs' h = Inr r2"
  shows "r1\<lparr>unstudied_card_details := []\<rparr> = r2\<lparr>unstudied_card_details := []\<rparr>"
    and "mset (unstudied_card_details r1) = mset (unstudied_card_details r2)"
proof -
  obtain av where av: "averages_of svc cs h = Inr av" using averages_of_total by blast
  obtain rd where rd: "review_data_of svc cs h = Inr rd" using review_data_of_total by blast
  have av': "averages_of svc cs' h = Inr av" using av averages_perm[OF m] by simp
  have rd': "review_data_of svc cs' h = Inr rd" using rd review_perm[OF m] by simp
  have y: "yield_stats_of svc tag cs h = yield_stats_of svc tag cs' h"
    by (rule ext) (rule yield_stats_perm[OF m])
  have e1: "r1\<lparr>unstudied_card_details := []\<rparr> = (projr (tag_record svc tag cs h))\<lparr>unstudied_card_details := []\<rparr>"
    using r1 by simp
  have e2: "r2\<lparr>unstudied_card_details := []\<rparr> = (projr (tag_record svc tag cs' h))\<lparr>unstudied_card_details := []\<rparr>"
    using r2 by simp
  have "(projr (tag_record svc tag cs h))\<lparr>unstudied_card_details := []\<rparr>
      = (projr (tag_record svc tag cs' h))\<lparr>unstudied_card_details := []\<rparr>"
    by (simp add: tag_record_def Let_def av rd av' rd' y perm_length[OF m]
        high_yield_perm[OF m] state_counts_perm[OF m] unstudied_perm[OF m])
  then show "r1\<lparr>unstudied_card_details := []\<rparr> = r2\<lparr>unstudied_card_details := []\<rparr>"
    using e1 e2 by simp
  have "unstudied_card_details r1 = card_details_of cs" "unstudied_card_details r2 = card_details_of cs'"
    using tag_record_Inr[OF r1] tag_record_Inr[OF r2] by auto
  then show "mset (unstudied_card_details r1) = mset (unstudied_card_details r2)"
    using card_details_perm[OF m] by simp
qed

lemma same_mapping_export_tags:
  assumes sm: "same_mapping cbt1 cbt2"
    and en1: "enumerates enum1 (all_tags (build_hierarchy_from_cards new_counter cbt1))"
    and en2: "enumerates enum2 (all_tags (build_hierarchy_from_cards new_counter cbt2))"
  shows "export_tags cbt1 (calculate_hierarchical_counts (build_hierarchy_from_cards new_counter cbt1) enum1)
       = export_tags cbt2 (calculate_hierarchical_counts (build_hierarchy_from_cards new_counter cbt2) enum2)"
  using sm same_mapping_calculate[OF sm en1 en2] by (simp add: export_tags_def same_mapping_def)

text \<open>
  Claim C4, as the code has it. Let two inputs be the same mapping, with the tags and the
  cards of a tag in any order, and let the sets of tags be enumerated in any two orders. Then
  the two runs export the same tags, and for every tag the two records agree in every field
  except \<open>unstudied_card_details\<close>, which holds the same entries in the order of the tag's
  card list. \<open>children_tags\<close> is compared as a set: its list order is the iteration order of
  a Python set. The wall-clock \<open>timestamp\<close> is not part of the model.
\<close>

theorem export_order_independent:
  assumes "same_mapping cards_by_tag1 cards_by_tag2"
    and "enumerates enum1 (all_tags (build_hierarchy_from_cards new_counter cards_by_tag1))"
    and "enumerates enum2 (all_tags (build_hierarchy_from_cards new_counter cards_by_tag2))"
    and "tag_record svc tag (cards_of cards_by_tag1 tag)
           (calculate_hierarchical_counts (build_hierarchy_from_cards new_counter cards_by_tag1) enum1 tag)
           = Inr r1"
    and "tag_record svc tag (cards_of cards_by_tag2 tag)
           (calculate_hierarchical_counts (build_hierarchy_from_cards new_counter cards_by_tag2) enum2 tag)
           = Inr r2"
  shows "export_tags cards_by_tag1
             (calculate_hierarchical_counts (build_hierarchy_from_cards new_counter cards_by_tag1) enum1)
           = export_tags cards_by_tag2
             (calculate_hierarchical_counts (build_hierarchy_from_cards new_counter cards_by_tag2) enum2)
       \<and> r1\<lparr>unstudied_card_details := []\<rparr> = r2\<lparr>unstudied_card_details := []\<rparr>
       \<and> mset (unstudied_card_details r1) = mset (unstudied_card_details r2)"
proof -
  have m: "mset (cards_of cards_by_tag1 tag) = mset (cards_of cards_by_tag2 tag)"
    using assms(1) by (simp add: same_mapping_def)
  have r2': "tag_record svc tag (cards_of cards_by_tag2 tag)
           (calculate_hierarchical_counts (build_hierarchy_from_cards new_counter cards_by_tag1) enum1 tag)
           = Inr r2"
    using assms(5) same_mapping_calculate[OF assms(1,2,3)] by simp
  show ?thesis
    using same_mapping_export_tags[OF assms(1,2,3)] tag_record_perm[OF m assms(4) r2'] by blast
qed

lemma ex_order_same: "same_mapping ex_order1 ex_order2"
  by (simp add: same_mapping_def ex_order1_def ex_order2_def cards_of_def)

lemma ex_order_cards:
  "cards_of ex_order1 ''t'' = [mk_card 1 0, mk_card 2 0]"
  "cards_of ex_order2 ''t'' = [mk_card 2 0, mk_card 1 0]"
  by (simp_all add: cards_of_def ex_order1_def ex_order2_def)

lemma ex_order_all_tags:
  "all_tags (build_hierarchy_from_cards new_counter ex_order1) = {''t''}"
  "all_tags (build_hierarchy_from_cards new_counter ex_order2) = {''t''}"
  by (simp_all add: all_tags_def build_dom_tag_to_cards dom_hrel[OF build_nonempty] build_hrel
      edges_of_no_sep ex_order1_def ex_order2_def)

lemma ex_order_enumerates:
  "enumerates [''t''] (all_tags (build_hierarchy_from_cards new_counter ex_order1))"
  "enumerates [''t''] (all_tags (build_hierarchy_from_cards new_counter ex_order2))"
  by (simp_all add: enumerates_def ex_order_all_tags)

text \<open>
  The two inputs are the same mapping, yet the records of the tag \<open>t\<close> differ in the
  list-valued field \<open>unstudied_card_details\<close>: the card identifiers come in the order 1, 2
  in one run and 2, 1 in the other.
\<close>

theorem export_order_counterexample:
  "same_mapping ex_order1 ex_order2 \<and>
   map_sum id (\<lambda>r. map det_card_id (unstudied_card_details r))
     (tag_record ex_service ''t'' (cards_of ex_order1 ''t'')
        (calculate_hierarchical_counts (build_hierarchy_from_cards new_counter ex_order1) [''t''] ''t''))
     = Inr [Some 1, Some 2] \<and>
   map_sum id (\<lambda>r. map det_card_id (unstudied_card_details r))
     (tag_record ex_service ''t'' (cards_of ex_order2 ''t'')
        (calculate_hierarchical_counts (build_hierarchy_from_cards new_counter ex_order2) [''t''] ''t''))
     = Inr [Some 2, Some 1]"
proof -
  obtain r1 where r1: "tag_record ex_service ''t'' (cards_of ex_order1 ''t'')
        (calculate_hierarchical_counts (build_hierarchy_from_cards new_counter ex_order1) [''t''] ''t'') = Inr r1"
    using tag_record_total by blast
  obtain r2 where r2: "tag_record ex_service ''t'' (cards_of ex_order2 ''t'')
        (calculate_hierarchical_counts (build_hierarchy_from_cards new_counter ex_order2) [''t''] ''t'') = Inr r2"
    using tag_record_total by blast
  have d1: "map det_card_id (unstudied_card_details r1) = [Some 1, Some 2]"
    using tag_record_Inr[OF r1] by (auto simp: ex_order_cards card_details_of_def mk_card_def)
  have d2: "map det_card_id (unstudied_card_details r2) = [Some 2, Some 1]"
    using tag_record_Inr[OF r2] by (auto simp: ex_order_cards card_details_of_def mk_card_def)
  show ?thesis using ex_order_same d1 d2 by (simp add: r1 r2)
qed

theorem export_order_independent_witness:
  "same_mapping ex_order1 ex_order2 \<and>
   enumerates [''t''] (all_tags (build_hierarchy_from_cards new_counter ex_order1)) \<and>
   enumerates [''t''] (all_tags (build_hierarchy_from_cards new_counter ex_order2)) \<and>
   (\<exists>r1 r2.
      tag_record ex_service ''t'' (cards_of ex_order1 ''t'')
        (calculate_hierarchical_counts (build_hierarchy_from_cards new_counter ex_order1) [''t''] ''t'')
        = Inr r1 \<and>
      tag_record ex_service ''t'' (cards_of ex_order2 ''t'')
        (calculate_hierarchical_counts (build_hierarchy_from_cards new_counter ex_order2) [''t''] ''t'')
        = Inr r2 \<and>
      r1\<lparr>unstudied_card_details := []\<rparr> = r2\<lparr>unstudied_card_details := []\<rparr> \<and>
      mset (unstudied_card_details r1) = mset (unstudied_card_details r2))"
proof -
  obtain r1 where r1: "tag_record ex_service ''t'' (cards_of ex_order1 ''t'')
        (calculate_hierarchical_counts (build_hierarchy_from_cards new_counter ex_order1) [''t''] ''t'') = Inr r1"
    using tag_record_total by blast
  obtain r2 where r2: "tag_record ex_service ''t'' (cards_of ex_order2 ''t'')
        (calculate_hierarchical_counts (build_hierarchy_from_cards new_counter ex_order2) [''t''] ''t'') = Inr r2"
    using tag_record_total by blast
  show ?thesis
    using export_order_independent[OF ex_order_same ex_order_enumerates r1 r2]
      ex_order_same ex_order_enumerates r1 r2 by blast
qed

section \<open>C6: the unstudied count of a tag with direct cards and descendants\<close>

lemma count_in_insert:
  "finite A \<Longrightarrow> x \<notin> A \<Longrightarrow> count_in p (insert x A) = (if p x then 1 else 0) + count_in p A"
  by (simp add: count_in_def)

lemma count_in_empty: "count_in p {} = 0"
  by (simp add: count_in_def)

lemma tag_record_new_cards:
  assumes "tag_record svc tag cards hinfo = Inr r"
  shows "new_cards r = s_new (state_counts_of svc cards hinfo)"
proof -
  obtain av where av: "averages_of svc cards hinfo = Inr av" using averages_of_total by blast
  obtain rd where rd: "review_data_of svc cards hinfo = Inr rd" using review_data_of_total by blast
  show ?thesis
    using assms by (auto simp: tag_record_def Let_def av rd)
qed

lemma ex_two_hrel:
  "hrel (tag_hierarchy (build_hierarchy_from_cards new_counter ex_two_cards_by_tag))
     = {(''a'', ''a::b''), (''a::b'', ''a::b::c'')}"
  by (auto simp: build_hrel ex_two_cards_by_tag_def ex_edges)

lemma ex_two_children:
  "dict_set (tag_hierarchy (build_hierarchy_from_cards new_counter ex_two_cards_by_tag)) t =
     (if t = ''a'' then {''a::b''} else if t = ''a::b'' then {''a::b::c''} else {})"
  by (auto simp: children_hrel ex_two_hrel)

lemma ex_two_direct:
  "dict_set (tag_to_cards (build_hierarchy_from_cards new_counter ex_two_cards_by_tag)) t =
     (if t = ''a::b::c'' then {1} else if t = ''a::b'' then {2} else {})"
  by (auto simp: build_tag_to_cards ex_two_cards_by_tag_def dict_set_def card_id_set_simps
      ex_card1_def ex_card2_def mk_card_def)

lemma ex_two_sorted: "sorted_tags ex_two_enum = [''a::b::c'', ''a::b'', ''a'']"
  by (simp add: sorted_tags_def ex_two_enum_def)

lemma ex_two_calc_b:
  "calculate_hierarchical_counts (build_hierarchy_from_cards new_counter ex_two_cards_by_tag)
     ex_two_enum ''a::b'' =
     Some \<lparr>direct_cards = {2}, all_unique_cards = {1, 2}, direct_count = 1,
           hierarchical_count = 2, children_count = 1,
           children_tags = {''a::b::c''}, parent_tags = [''a'']\<rparr>"
  by (simp add: calculate_hierarchical_counts_def ex_two_sorted process_tag_def ex_two_direct
      ex_two_children child_cards_def ex_parents Let_def insert_commute)

lemma ex_two_cards_of_b: "cards_of ex_two_cards_by_tag ''a::b'' = [ex_card2]"
  by (simp add: cards_of_def ex_two_cards_by_tag_def)

text \<open>
  Claim C6. The claim says that a node with direct cards has its \<open>unstudied_cards\<close> counted
  over its direct cards only, the rolled-up set being read exactly when the direct count
  is 0. The source tests only \<open>hierarchical_count > 0\<close> before it counts over
  \<open>all_unique_cards\<close>. In the collection of two cards the tag \<open>a::b\<close> has the direct count 1:
  its own card has been studied, the card of its descendant \<open>a::b::c\<close> has not. None of the
  direct cards of \<open>a::b\<close> is unstudied, yet its record has \<open>total_cards = 1\<close>,
  \<open>new_cards = 0\<close>, \<open>unstudied_cards = 1\<close> and no unstudied card details.
\<close>

theorem unstudied_cards_counts_descendants:
  "direct_count (the (calculate_hierarchical_counts
      (build_hierarchy_from_cards new_counter ex_two_cards_by_tag) ex_two_enum ''a::b'')) = 1 \<and>
   count_if (\<lambda>c. reps c = 0) (cards_of ex_two_cards_by_tag ''a::b'') = 0 \<and>
   map_sum id (\<lambda>r. (total_cards r, new_cards r, unstudied_cards r, unstudied_card_details r))
     (tag_record ex_two_service ''a::b'' (cards_of ex_two_cards_by_tag ''a::b'')
        (calculate_hierarchical_counts
           (build_hierarchy_from_cards new_counter ex_two_cards_by_tag) ex_two_enum ''a::b''))
     = Inr (1, 0, 1, [])"
proof -
  obtain r where r: "tag_record ex_two_service ''a::b'' (cards_of ex_two_cards_by_tag ''a::b'')
        (calculate_hierarchical_counts
           (build_hierarchy_from_cards new_counter ex_two_cards_by_tag) ex_two_enum ''a::b'') = Inr r"
    using tag_record_total by blast
  have t: "total_cards r = 1"
    using tag_record_Inr[OF r] by (auto simp: ex_two_cards_of_b)
  have n: "new_cards r = 0"
    using tag_record_new_cards[OF r]
    by (simp add: ex_two_cards_of_b state_counts_of_def count_if_def ex_card2_def mk_card_def)
  have "unstudied_cards r = unstudied_of ex_two_service (cards_of ex_two_cards_by_tag ''a::b'')
        (calculate_hierarchical_counts
           (build_hierarchy_from_cards new_counter ex_two_cards_by_tag) ex_two_enum ''a::b'')"
    using tag_record_Inr[OF r] by blast
  also have "\<dots> = 1"
    by (simp add: ex_two_calc_b unstudied_of_def has_hierarchy_def hierarchy_cards_def
        count_in_insert count_in_empty card_val_def ex_two_service_def ex_card1_def ex_card2_def
        mk_card_def)
  finally have u: "unstudied_cards r = 1" .
  have d: "unstudied_card_details r = []"
    using tag_record_Inr[OF r]
    by (auto simp: ex_two_cards_of_b card_details_of_def ex_card2_def mk_card_def)
  have c: "count_if (\<lambda>c. reps c = 0) (cards_of ex_two_cards_by_tag ''a::b'') = 0"
    by (simp add: ex_two_cards_of_b count_if_def ex_card2_def mk_card_def)
  have dc: "direct_count (the (calculate_hierarchical_counts
      (build_hierarchy_from_cards new_counter ex_two_cards_by_tag) ex_two_enum ''a::b'')) = 1"
    by (simp add: ex_two_calc_b)
  have m: "map_sum id (\<lambda>r. (total_cards r, new_cards r, unstudied_cards r, unstudied_card_details r))
     (tag_record ex_two_service ''a::b'' (cards_of ex_two_cards_by_tag ''a::b'')
        (calculate_hierarchical_counts
           (build_hierarchy_from_cards new_counter ex_two_cards_by_tag) ex_two_enum ''a::b''))
     = Inr (1, 0, 1, [])"
    by (simp add: r t n u d)
  show ?thesis using dc c m by blast
qed

section \<open>C9: what a failed write leaves behind\<close>

lemma write_items_ok:
  "\<forall>x \<in> set data. dumps x \<noteq> None \<Longrightarrow>
   write_items dumps data written = (written @ map (json_line dumps) data, True)"
  by (induction data arbitrary: written) (auto simp: json_line_def)

lemma write_items_fail:
  "\<forall>x \<in> set pre. dumps x \<noteq> None \<Longrightarrow> dumps bad = None \<Longrightarrow>
   write_items dumps (pre @ bad # post) written = (written @ map (json_line dumps) pre, False)"
  by (induction pre arbitrary: written) (auto simp: json_line_def)

lemma path_join_nonempty: "b \<noteq> [] \<Longrightarrow> path_join a b \<noteq> []"
  by (simp add: path_join_def)

lemma get_exports_dir_ok:
  "makedirs_ok (exports_of addon_dir) \<Longrightarrow>
   get_exports_dir makedirs_ok addon_dir fs
     = (Inr (exports_of addon_dir), with_dir fs (exports_of addon_dir))"
  by (simp add: get_exports_dir_def makedirs_def exports_of_def with_dir_def Let_def)

lemma get_exports_dir_raises:
  "\<not> makedirs_ok (exports_of addon_dir) \<Longrightarrow>
   get_exports_dir makedirs_ok addon_dir fs = (Inl OSError, fs)"
  by (simp add: get_exports_dir_def makedirs_def exports_of_def Let_def)

text \<open>
  When the exports directory cannot be created, \<open>_compress_to_gzip_fast\<close> raises
  \<open>OSError\<close> and writes nothing.
\<close>

lemma compress_raises_without_exports_dir:
  "\<not> makedirs_ok (exports_of addon_dir) \<Longrightarrow>
   compress_to_gzip_fast makedirs_ok can_open dumps addon_dir fs data filename = (Inl OSError, fs)"
  by (simp add: compress_to_gzip_fast_def get_exports_dir_raises)

lemma compress_not_open:
  assumes "makedirs_ok (exports_of addon_dir)"
    and "\<not> can_open (path_join (exports_of addon_dir) filename)"
  shows "compress_to_gzip_fast makedirs_ok can_open dumps addon_dir fs data filename
     = (Inr '''', with_dir fs (exports_of addon_dir))"
  using assms by (simp add: compress_to_gzip_fast_def get_exports_dir_ok Let_def)

lemma compress_fail:
  assumes "makedirs_ok (exports_of addon_dir)"
    and "can_open (path_join (exports_of addon_dir) filename)"
    and "\<forall>x \<in> set pre. dumps x \<noteq> None" and "dumps bad = None"
  shows "compress_to_gzip_fast makedirs_ok can_open dumps addon_dir fs (pre @ bad # post) filename
     = (Inr '''', with_file (with_dir fs (exports_of addon_dir))
                    (path_join (exports_of addon_dir) filename) (map (json_line dumps) pre))"
  using assms
  by (simp add: compress_to_gzip_fast_def get_exports_dir_ok Let_def write_items_fail with_file_def)

lemma compress_ok:
  assumes "makedirs_ok (exports_of addon_dir)"
    and "can_open (path_join (exports_of addon_dir) filename)"
    and "\<forall>x \<in> set data. dumps x \<noteq> None"
  shows "compress_to_gzip_fast makedirs_ok can_open dumps addon_dir fs data filename
     = (Inr (path_join (exports_of addon_dir) filename),
        with_file (with_dir fs (exports_of addon_dir))
          (path_join (exports_of addon_dir) filename) (map (json_line dumps) data))"
  using assms
  by (simp add: compress_to_gzip_fast_def get_exports_dir_ok Let_def write_items_ok with_file_def)

lemma unified_not_open:
  assumes "\<not> can_open (path_join exports_dir (unified_name timestamp))"
  shows "create_direct_unified_export can_open dumps exports_dir fs data timestamp
     = (\<lparr>file_path = '''', record_count = 0, success = False\<rparr>, fs)"
  using assms by (simp add: create_direct_unified_export_def unified_name_def Let_def)

lemma unified_fail:
  assumes "can_open (path_join exports_dir (unified_name timestamp))"
    and "\<forall>x \<in> set pre. dumps x \<noteq> None" and "dumps bad = None"
  shows "create_direct_unified_export can_open dumps exports_dir fs (pre @ bad # post) timestamp
     = (\<lparr>file_path = '''', record_count = 0, success = False\<rparr>,
        with_file fs (path_join exports_dir (unified_name timestamp)) (map (json_line dumps) pre))"
  using assms
  by (simp add: create_direct_unified_export_def unified_name_def Let_def write_items_fail
      with_file_def)

lemma unified_ok:
  assumes "can_open (path_join exports_dir (unified_name timestamp))"
    and "\<forall>x \<in> set data. dumps x \<noteq> None"
  shows "create_direct_unified_export can_open dumps exports_dir fs data timestamp
     = (\<lparr>file_path = path_join exports_dir (unified_name timestamp),
          record_count = int (length data), success = True\<rparr>,
        with_file fs (path_join exports_dir (unified_name timestamp)) (map (json_line dumps) data))"
  using assms
  by (simp add: create_direct_unified_export_def unified_name_def Let_def write_items_ok
      with_file_def)

text \<open>
  Claim C9, as the code has it, for the case that the exports directory exists or can be
  created. Both writers signal failure without raising: the empty path, and
  \<open>success = False\<close> in the unified exporter. When the file cannot be opened no file is
  written. When a record cannot be serialized, the output file stays at the output path and
  holds the lines of the records before the failing one. When every record can be
  serialized, the path, which is not empty, is returned and the file holds one line per
  record.
\<close>

theorem sink_failure_leaves_partial_file:
  assumes "makedirs_ok (exports_of addon_dir)"
  shows
  "(\<not> can_open (path_join (exports_of addon_dir) filename) \<longrightarrow>
      compress_to_gzip_fast makedirs_ok can_open dumps addon_dir fs data filename
        = (Inr '''', with_dir fs (exports_of addon_dir)))
 \<and> (\<not> can_open (path_join exports_dir (unified_name timestamp)) \<longrightarrow>
      create_direct_unified_export can_open dumps exports_dir fs data timestamp
        = (\<lparr>file_path = '''', record_count = 0, success = False\<rparr>, fs))
 \<and> (data = pre @ bad # post \<and> (\<forall>x \<in> set pre. dumps x \<noteq> None) \<and> dumps bad = None \<longrightarrow>
      (can_open (path_join (exports_of addon_dir) filename) \<longrightarrow>
         compress_to_gzip_fast makedirs_ok can_open dumps addon_dir fs data filename
           = (Inr '''', with_file (with_dir fs (exports_of addon_dir))
                          (path_join (exports_of addon_dir) filename) (map (json_line dumps) pre)))
    \<and> (can_open (path_join exports_dir (unified_name timestamp)) \<longrightarrow>
         create_direct_unified_export can_open dumps exports_dir fs data timestamp
           = (\<lparr>file_path = '''', record_count = 0, success = False\<rparr>,
              with_file fs (path_join exports_dir (unified_name timestamp))
                (map (json_line dumps) pre))))
 \<and> ((\<forall>x \<in> set data. dumps x \<noteq> None) \<longrightarrow>
      (can_open (path_join (exports_of addon_dir) filename) \<longrightarrow>
         compress_to_gzip_fast makedirs_ok can_open dumps addon_dir fs data filename
           = (Inr (path_join (exports_of addon_dir) filename),
              with_file (with_dir fs (exports_of addon_dir))
                (path_join (exports_of addon_dir) filename) (map (json_line dumps) data))
         \<and> path_join (exports_of addon_dir) filename \<noteq> '''')
    \<and> (can_open (path_join exports_dir (unified_name timestamp)) \<longrightarrow>
         create_direct_unified_export can_open dumps exports_dir fs data timestamp
           = (\<lparr>file_path = path_join exports_dir (unified_name timestamp),
                record_count = int (length data), success = True\<rparr>,
              with_file fs (path_join exports_dir (unified_name timestamp))
                (map (json_line dumps) data))))"
proof -
  have ne: "path_join (exports_of addon_dir) filename \<noteq> ''''"
    by (simp add: path_join_def exports_of_def)
  show ?thesis
    using assms ne
    by (auto simp: compress_not_open compress_fail compress_ok unified_not_open unified_fail
        unified_ok)
qed

text \<open>
  The second of two records cannot be serialized. The writer returns the empty path, and the
  output file exists and holds the line of the first record only.
\<close>

theorem no_partial_file_counterexample:
  "compress_to_gzip_fast (\<lambda>d. True) (\<lambda>p. True) ex_dumps ''/addon'' ex_fs [0, 1] ''out.ndjson.gz''
     = (Inr '''', \<lparr>dirs = {''/addon/exports''},
                   files = [''/addon/exports/out.ndjson.gz'' \<mapsto> [''{}'' @ [CHR 0x0A]]]\<rparr>)"
  by (simp add: compress_to_gzip_fast_def get_exports_dir_def makedirs_def path_join_def
      ex_dumps_def ex_fs_def Let_def)

lemma ex_paths:
  "exports_of ''/addon'' = ''/addon/exports''"
  "path_join ''/addon/exports'' ''out.ndjson.gz'' = ''/addon/exports/out.ndjson.gz''"
  "path_join ''/addon/exports'' (unified_name ''20240101_120000'')
     = ''/addon/exports/unified_export_20240101_120000.ndjson.gz''"
  by (simp_all add: exports_of_def path_join_def unified_name_def)

theorem sink_failure_leaves_partial_file_witness:
  "compress_to_gzip_fast (\<lambda>d. True) (\<lambda>p. False) ex_dumps ''/addon'' ex_fs [0, 1] ''out.ndjson.gz''
     = (Inr '''', \<lparr>dirs = {''/addon/exports''}, files = Map.empty\<rparr>) \<and>
   compress_to_gzip_fast (\<lambda>d. True) (\<lambda>p. True) ex_dumps ''/addon'' ex_fs ([0] @ 1 # [2])
       ''out.ndjson.gz''
     = (Inr '''', \<lparr>dirs = {''/addon/exports''},
                   files = [''/addon/exports/out.ndjson.gz'' \<mapsto> [''{}'' @ [CHR 0x0A]]]\<rparr>) \<and>
   create_direct_unified_export (\<lambda>p. True) ex_dumps ''/addon/exports'' ex_fs ([0] @ 1 # [2])
       ''20240101_120000''
     = (\<lparr>file_path = '''', record_count = 0, success = False\<rparr>,
        \<lparr>dirs = {},
         files = [''/addon/exports/unified_export_20240101_120000.ndjson.gz''
                    \<mapsto> [''{}'' @ [CHR 0x0A]]]\<rparr>) \<and>
   compress_to_gzip_fast (\<lambda>d. True) (\<lambda>p. True) ex_dumps ''/addon'' ex_fs [0, 0] ''out.ndjson.gz''
     = (Inr ''/addon/exports/out.ndjson.gz'',
        \<lparr>dirs = {''/addon/exports''},
         files = [''/addon/exports/out.ndjson.gz'' \<mapsto> [''{}'' @ [CHR 0x0A], ''{}'' @ [CHR 0x0A]]]\<rparr>)"
proof -
  have p: "\<forall>x \<in> set [0::nat]. ex_dumps x \<noteq> None" "ex_dumps 1 = None"
    "\<forall>x \<in> set [0, 0::nat]. ex_dumps x \<noteq> None"
    by (simp_all add: ex_dumps_def)
  have j: "json_line ex_dumps 0 = ''{}'' @ [CHR 0x0A]"
    by (simp add: json_line_def ex_dumps_def)
  have a: "compress_to_gzip_fast (\<lambda>d. True) (\<lambda>p. False) ex_dumps ''/addon'' ex_fs [0, 1]
      ''out.ndjson.gz'' = (Inr '''', \<lparr>dirs = {''/addon/exports''}, files = Map.empty\<rparr>)"
    using sink_failure_leaves_partial_file[of "\<lambda>d. True" "''/addon''" "\<lambda>p. False"
        "''out.ndjson.gz''" ex_dumps ex_fs "[0, 1]"]
    by (simp add: ex_paths with_dir_def ex_fs_def)
  have b: "compress_to_gzip_fast (\<lambda>d. True) (\<lambda>p. True) ex_dumps ''/addon'' ex_fs ([0] @ 1 # [2])
       ''out.ndjson.gz''
     = (Inr '''', \<lparr>dirs = {''/addon/exports''},
                   files = [''/addon/exports/out.ndjson.gz'' \<mapsto> [''{}'' @ [CHR 0x0A]]]\<rparr>)"
    using sink_failure_leaves_partial_file[of "\<lambda>d. True" "''/addon''" "\<lambda>p. True"
        "''out.ndjson.gz''" ex_dumps ex_fs "[0] @ 1 # [2]" "''/addon/exports''"
        "''20240101_120000''" "[0]" 1 "[2]"] p
    by (simp add: ex_paths with_dir_def with_file_def ex_fs_def j)
  have c: "create_direct_unified_export (\<lambda>p. True) ex_dumps ''/addon/exports'' ex_fs
       ([0] @ 1 # [2]) ''20240101_120000''
     = (\<lparr>file_path = '''', record_count = 0, success = False\<rparr>,
        \<lparr>dirs = {},
         files = [''/addon/exports/unified_export_20240101_120000.ndjson.gz''
                    \<mapsto> [''{}'' @ [CHR 0x0A]]]\<rparr>)"
    using sink_failure_leaves_partial_file[of "\<lambda>d. True" "''/addon''" "\<lambda>p. True"
        "''out.ndjson.gz''" ex_dumps ex_fs "[0] @ 1 # [2]" "''/addon/exports''"
        "''20240101_120000''" "[0]" 1 "[2]"] p
    by (simp add: ex_paths with_dir_def with_file_def ex_fs_def j)
  have d: "compress_to_gzip_fast (\<lambda>d. True) (\<lambda>p. True) ex_dumps ''/addon'' ex_fs [0, 0]
       ''out.ndjson.gz''
     = (Inr ''/addon/exports/out.ndjson.gz'',
        \<lparr>dirs = {''/addon/exports''},
         files = [''/addon/exports/out.ndjson.gz'' \<mapsto> [''{}'' @ [CHR 0x0A], ''{}'' @ [CHR 0x0A]]]\<rparr>)"
    using sink_failure_leaves_partial_file[of "\<lambda>d. True" "''/addon''" "\<lambda>p. True"
        "''out.ndjson.gz''" ex_dumps ex_fs "[0, 0]"] p
    by (simp add: ex_paths with_dir_def with_file_def ex_fs_def j)
  show ?thesis using a b c d by blast
qed

end
